theory Spec2Isabelle
  imports Main "HOL-Library.Word" "HOL-Library.Multiset"
begin

unbundle bit_operations_syntax

section \<open>Python values and exceptions\<close>

text \<open>
  The exceptions the modelled code can raise. \<open>DBusException\<close> stands for whatever an
  endpoint call raises; the other three are raised by the interpreter itself
  (\<open>int(None)\<close>, a missing attribute, \<open>set.remove\<close> of an absent element).
\<close>

datatype py_error = TypeError | AttributeError | KeyError | DBusException

text \<open>The values a keyword argument can carry, as far as \<open>isinstance(v, bool)\<close> tells them apart.\<close>

datatype py_value = PyBool bool | PyInt int | PyStr string | PyNone

fun isinstance_bool :: "py_value \<Rightarrow> bool" where
  "isinstance_bool (PyBool b) = True"
| "isinstance_bool v = False"

section \<open>IntFlag enumerations\<close>

text \<open>
  An \<open>IntFlag\<close> value is a Python integer (unbounded). \<open>a | b\<close> on two flags is
  \<open>IntFlag.__or__\<close>: the bitwise or of the two integers, wrapped in the class again.
\<close>

definition IntFlag_or :: "int \<Rightarrow> int \<Rightarrow> int" where
  "IntFlag_or a b = a OR b"

text \<open>\<open>b * member\<close> for a bool \<open>b\<close>: bool is a subclass of int, True is 1 and False is 0.\<close>

definition bool_times :: "bool \<Rightarrow> int \<Rightarrow> int" where
  "bool_times b n = (if b then 1 else 0) * n"

text \<open>
  What \<open>hasattr\<close>/\<open>getattr\<close> see on an enumeration class: a member (or another
  integer-valued attribute) or an attribute that is no integer (a method, a descriptor, the
  docstring).
\<close>

datatype attr = IntAttr int | OtherAttr

type_synonym enum_class = "string \<Rightarrow> attr option"

text \<open>
  The attributes of a class: those of its own body, and behind them those it inherits. An
  \<open>IntFlag\<close> class inherits from \<open>IntFlag\<close>, \<open>int\<close>, \<open>Enum\<close> and \<open>object\<close>, and shows the
  attributes of its metaclass: methods and descriptors such as \<open>real\<close>, \<open>numerator\<close>,
  \<open>bit_length\<close> or \<open>mro\<close>, which are no integers, and integer-valued ones such as
  \<open>__itemsize__\<close>. Which they are, and the integers' values, depends on the interpreter, so
  the inherited attributes are a parameter of the two enumerations. No member of either has
  the name of an inherited attribute.
\<close>

definition class_attrs :: "(string \<times> attr) list \<Rightarrow> enum_class \<Rightarrow> enum_class" where
  "class_attrs own inherited k =
     (case map_of own k of Some a \<Rightarrow> Some a | None \<Rightarrow> inherited k)"

definition SuspendInhibitionState :: "enum_class \<Rightarrow> enum_class" where
  "SuspendInhibitionState inherited = class_attrs
     [(''none'', IntAttr 0), (''suspend'', IntAttr 1), (''display'', IntAttr 2),
      (''__doc__'', OtherAttr)] inherited"

definition EXECUTION_STATE :: "enum_class \<Rightarrow> enum_class" where
  "EXECUTION_STATE inherited = class_attrs
     [(''hidden'', IntAttr 0x40), (''AWAYMODE_REQUIRED'', IntAttr 0x40),
      (''CONTINUOUS'', IntAttr 0x80000000),
      (''display'', IntAttr 2), (''DISPLAY_REQUIRED'', IntAttr 2),
      (''suspend'', IntAttr 1), (''SYSTEM_REQUIRED'', IntAttr 1),
      (''USER_PRESENT'', IntAttr 4),
      (''__doc__'', OtherAttr)] inherited"

definition hasattr :: "enum_class \<Rightarrow> string \<Rightarrow> bool" where
  "hasattr E k = (E k \<noteq> None)"

text \<open>
  \<open>STATE_ENUM.k\<close> used as a number: a missing attribute raises AttributeError, an attribute
  that is no integer makes the flag arithmetic raise TypeError (at the product with the bool
  or at the \<open>|\<close> that follows). Both enumerations of the module have \<open>suspend\<close> and
  \<open>display\<close> as members.
\<close>

definition getattr_int :: "enum_class \<Rightarrow> string \<Rightarrow> py_error + int" where
  "getattr_int E k =
     (case E k of None \<Rightarrow> Inl AttributeError
      | Some OtherAttr \<Rightarrow> Inl TypeError
      | Some (IntAttr n) \<Rightarrow> Inr n)"

section \<open>NoSuspend: the base class\<close>

record NoSuspend =
  flag :: int
  inherit :: bool

text \<open>
  The loop of \<open>NoSuspend.__init__\<close> over \<open>kwargs.items()\<close>: a pair is used when the
  name is an attribute of the enumeration and the value is a bool, and skipped otherwise.
  \<open>kwargs\<close> is the dictionary of the extra keyword arguments: its keys are distinct, and
  none is \<open>suspend\<close>, \<open>display\<close> or \<open>inherit\<close>, which Python binds to the parameters (or
  rejects the call when they are given twice).
\<close>

definition accepted :: "enum_class \<Rightarrow> string \<times> py_value \<Rightarrow> bool" where
  "accepted E kv = (hasattr E (fst kv) \<and> isinstance_bool (snd kv))"

fun init_kwargs :: "enum_class \<Rightarrow> int \<Rightarrow> (string \<times> py_value) list \<Rightarrow> py_error + int" where
  "init_kwargs E f [] = Inr f"
| "init_kwargs E f ((k, PyBool v) # kws) =
     (if hasattr E k
      then (case getattr_int E k of
              Inl e \<Rightarrow> Inl e
            | Inr n \<Rightarrow> init_kwargs E (IntFlag_or f (bool_times v n)) kws)
      else init_kwargs E f kws)"
| "init_kwargs E f ((k, v) # kws) = init_kwargs E f kws"

definition NoSuspend_init ::
  "enum_class \<Rightarrow> bool \<Rightarrow> bool \<Rightarrow> bool \<Rightarrow> (string \<times> py_value) list \<Rightarrow> py_error + NoSuspend" where
  "NoSuspend_init E suspend display inh kwargs =
     (case getattr_int E ''suspend'' of
        Inl e \<Rightarrow> Inl e
      | Inr s \<Rightarrow>
     (case getattr_int E ''display'' of
        Inl e \<Rightarrow> Inl e
      | Inr d \<Rightarrow>
     (case init_kwargs E (IntFlag_or (bool_times suspend s) (bool_times display d)) kwargs of
        Inl e \<Rightarrow> Inl e
      | Inr f \<Rightarrow> Inr \<lparr>flag = f, inherit = inh\<rparr>)))"

section \<open>The single-call backend (Windows Vista and later)\<close>

text \<open>
  Modelled from the spec: \<open>kernel32.SetThreadExecutionState\<close>, the platform call, is no
  code of the repository. It is the spec's single call that sets the complete bitmask and
  returns the previous one, as a fake backend that records its bitmask (and, here, every
  call it receives).
\<close>

record win_backend =
  bitmask :: int
  calls :: "int list"

definition kernel32_SetThreadExecutionState :: "int \<Rightarrow> win_backend \<Rightarrow> int \<times> win_backend" where
  "kernel32_SetThreadExecutionState es b = (bitmask b, \<lparr>bitmask = es, calls = calls b @ [es]\<rparr>)"

record NoSuspendWinVistaPlus = NoSuspend +
  prev :: "int option"
  current :: "int option"

definition NoSuspendWinVistaPlus_init ::
  "enum_class \<Rightarrow> bool \<Rightarrow> bool \<Rightarrow> bool \<Rightarrow> bool \<Rightarrow> (string \<times> py_value) list
     \<Rightarrow> py_error + NoSuspendWinVistaPlus" where
  "NoSuspendWinVistaPlus_init inherited suspend display awaymode inh kwargs =
     (case NoSuspend_init (EXECUTION_STATE inherited) suspend display inh
             ((''AWAYMODE_REQUIRED'', PyBool awaymode) # kwargs) of
        Inl e \<Rightarrow> Inl e
      | Inr base \<Rightarrow>
          Inr \<lparr>flag = IntFlag_or (flag base) 0x80000000, inherit = inherit base,
               prev = None, current = None\<rparr>)"

definition getCurrentState :: "win_backend \<Rightarrow> int \<times> win_backend" where
  "getCurrentState b = kernel32_SetThreadExecutionState 0 b"

text \<open>\<open>int(es)\<close> raises TypeError on None, before the platform is called.\<close>

definition setThreadExecutionState ::
  "int option \<Rightarrow> win_backend \<Rightarrow> (py_error + int) \<times> win_backend" where
  "setThreadExecutionState es b =
     (case es of
        None \<Rightarrow> (Inl TypeError, b)
      | Some v \<Rightarrow> (let (r, b') = kernel32_SetThreadExecutionState v b in (Inr r, b')))"

definition NoSuspendWinVistaPlus_enter ::
  "NoSuspendWinVistaPlus \<Rightarrow> win_backend \<Rightarrow> (py_error + int) \<times> NoSuspendWinVistaPlus \<times> win_backend" where
  "NoSuspendWinVistaPlus_enter self b =
     (let (p, b1) = getCurrentState b;
          self1 = self\<lparr>prev := Some p\<rparr>;
          cur = IntFlag_or (flag self1) (if inherit self1 then p else 0);
          self2 = self1\<lparr>current := Some cur\<rparr>;
          (r, b2) = setThreadExecutionState (current self2) b1
      in case r of
           Inl e \<Rightarrow> (Inl e, self2, b2)
         | Inr x \<Rightarrow> (Inr cur, self2, b2))"

definition NoSuspendWinVistaPlus_exit ::
  "NoSuspendWinVistaPlus \<Rightarrow> win_backend \<Rightarrow> py_error option \<times> NoSuspendWinVistaPlus \<times> win_backend" where
  "NoSuspendWinVistaPlus_exit self b =
     (let self1 = self\<lparr>current := prev self\<rparr>;
          (r, b1) = setThreadExecutionState (current self1) b
      in case r of
           Inl e \<Rightarrow> (Some e, self1, b1)
         | Inr x \<Rightarrow> (None, self1\<lparr>prev := None\<rparr>, b1))"

section \<open>The Dummy family\<close>

text \<open>
  The classes of the module and their bases. \<open>mro\<close> lists a class and its ancestors below
  \<open>object\<close>, nearest first; \<open>issubclass\<close> is Python's (reflexive).
\<close>

datatype py_class =
    NoSuspend_class
  | NoSuspendDummy
  | NoSuspendNotAvailable
  | NoSuspendNotImplemented
  | NoSuspendDependenciesAreMissing
  | NoSuspendWinVistaPlus_class
  | NoSuspendWinXP
  | NoSuspendLinux_class

fun mro :: "py_class \<Rightarrow> py_class list" where
  "mro NoSuspend_class = [NoSuspend_class]"
| "mro NoSuspendDummy = [NoSuspendDummy, NoSuspend_class]"
| "mro NoSuspendNotAvailable = [NoSuspendNotAvailable, NoSuspendDummy, NoSuspend_class]"
| "mro NoSuspendNotImplemented =
     [NoSuspendNotImplemented, NoSuspendNotAvailable, NoSuspendDummy, NoSuspend_class]"
| "mro NoSuspendDependenciesAreMissing =
     [NoSuspendDependenciesAreMissing, NoSuspendNotAvailable, NoSuspendDummy, NoSuspend_class]"
| "mro NoSuspendWinVistaPlus_class = [NoSuspendWinVistaPlus_class, NoSuspend_class]"
| "mro NoSuspendWinXP = [NoSuspendWinXP, NoSuspend_class]"
| "mro NoSuspendLinux_class = [NoSuspendLinux_class, NoSuspend_class]"

definition issubclass :: "py_class \<Rightarrow> py_class \<Rightarrow> bool" where
  "issubclass c d = (d \<in> set (mro c))"

text \<open>Which classes define \<open>__init__\<close>, \<open>__enter__\<close> and \<open>__exit__\<close> in their own body.\<close>

fun defines_init :: "py_class \<Rightarrow> bool" where
  "defines_init NoSuspendNotAvailable = False"
| "defines_init NoSuspendNotImplemented = False"
| "defines_init NoSuspendDependenciesAreMissing = False"
| "defines_init c = True"

fun defines_enter :: "py_class \<Rightarrow> bool" where
  "defines_enter NoSuspendNotAvailable = False"
| "defines_enter c = True"

fun defines_exit :: "py_class \<Rightarrow> bool" where
  "defines_exit NoSuspendNotAvailable = False"
| "defines_exit NoSuspendNotImplemented = False"
| "defines_exit NoSuspendDependenciesAreMissing = False"
| "defines_exit c = True"

text \<open>Method resolution: the nearest class of the \<open>mro\<close> that defines the method.\<close>

definition resolve :: "(py_class \<Rightarrow> bool) \<Rightarrow> py_class \<Rightarrow> py_class option" where
  "resolve defines c = find defines (mro c)"

text \<open>\<open>NoSuspendDummy.__init__(*args, **kwargs)\<close> is \<open>pass\<close>: it raises nothing and sets nothing.\<close>

definition NoSuspendDummy_init :: "py_value list \<Rightarrow> (string \<times> py_value) list \<Rightarrow> py_error option" where
  "NoSuspendDummy_init args kwargs = None"

text \<open>
  An instance of the family has no attribute, so \<open>__enter__\<close> and \<open>__exit__\<close> depend on
  nothing but the list of warnings emitted so far, which they return extended.
\<close>

definition not_implemented_warning :: string where
  "not_implemented_warning =
     ''Suspension prevention is not implemented in this lib for this environment. Help is welcome.''"

definition NoSuspendDummy_enter :: "string list \<Rightarrow> int \<times> string list" where
  "NoSuspendDummy_enter ws = (0, ws)"

definition NoSuspendDummy_exit :: "string list \<Rightarrow> py_error option \<times> string list" where
  "NoSuspendDummy_exit ws = (None, ws)"

definition NoSuspendNotImplemented_enter :: "string list \<Rightarrow> int \<times> string list" where
  "NoSuspendNotImplemented_enter ws = NoSuspendDummy_enter (ws @ [not_implemented_warning])"

definition NoSuspendDependenciesAreMissing_enter :: "string list \<Rightarrow> int \<times> string list" where
  "NoSuspendDependenciesAreMissing_enter ws = NoSuspendDummy_enter (ws @ [not_implemented_warning])"

text \<open>
  Entering and leaving an instance of class \<open>c\<close>, for the classes whose methods resolve into
  the Dummy family; \<open>None\<close> for the others, whose methods need the state modelled in the
  backends' own sections.
\<close>

definition family_enter :: "py_class \<Rightarrow> string list \<Rightarrow> (int \<times> string list) option" where
  "family_enter c ws =
     (case resolve defines_enter c of
        Some NoSuspendDummy \<Rightarrow> Some (NoSuspendDummy_enter ws)
      | Some NoSuspendNotImplemented \<Rightarrow> Some (NoSuspendNotImplemented_enter ws)
      | Some NoSuspendDependenciesAreMissing \<Rightarrow> Some (NoSuspendDependenciesAreMissing_enter ws)
      | _ \<Rightarrow> None)"

definition family_exit :: "py_class \<Rightarrow> string list \<Rightarrow> (py_error option \<times> string list) option" where
  "family_exit c ws =
     (case resolve defines_exit c of
        Some NoSuspendDummy \<Rightarrow> Some (NoSuspendDummy_exit ws)
      | _ \<Rightarrow> None)"

definition family_init ::
  "py_class \<Rightarrow> py_value list \<Rightarrow> (string \<times> py_value) list \<Rightarrow> py_error option option" where
  "family_init c args kwargs =
     (case resolve defines_init c of
        Some NoSuspendDummy \<Rightarrow> Some (NoSuspendDummy_init args kwargs)
      | _ \<Rightarrow> None)"

section \<open>The multi-endpoint backend (Linux, D-Bus)\<close>

type_synonym cookie = nat
type_synonym inh_id = nat

text \<open>
  The D-Bus services are no code of the repository. An endpoint is what stands behind one
  inhibitor object: the outcome of its \<open>_inhibitCall\<close> and \<open>_uninhibitCall\<close>, each a
  function of the calls made so far, so that a service may answer every call differently.
\<close>

datatype dbus_call = InhibitCall inh_id string string | UninhibitCall inh_id cookie

record endpoint =
  inhibitCall :: "dbus_call list \<Rightarrow> string \<Rightarrow> string \<Rightarrow> py_error + cookie"
  uninhibitCall :: "dbus_call list \<Rightarrow> cookie \<Rightarrow> py_error option"

text \<open>
  The state outside a scope: the \<open>cookies\<close> set of every inhibitor object (a list without
  repetition), the calls made to the endpoints, and the warnings emitted.
\<close>

record dbus_world =
  ifc_cookies :: "inh_id \<Rightarrow> cookie list"
  dbus_log :: "dbus_call list"
  warnings :: "string list"

definition set_add :: "cookie \<Rightarrow> cookie list \<Rightarrow> cookie list" where
  "set_add ck cs = (if ck \<in> set cs then cs else cs @ [ck])"

definition DBusInhibitor_inhibit ::
  "(inh_id \<Rightarrow> endpoint) \<Rightarrow> inh_id \<Rightarrow> string \<Rightarrow> string \<Rightarrow> dbus_world \<Rightarrow> (py_error + cookie) \<times> dbus_world" where
  "DBusInhibitor_inhibit eps i app rsn w =
     (let w1 = w\<lparr>dbus_log := dbus_log w @ [InhibitCall i app rsn]\<rparr> in
      case inhibitCall (eps i) (dbus_log w) app rsn of
        Inl e \<Rightarrow> (Inl e, w1)
      | Inr ck \<Rightarrow> (Inr ck, w1\<lparr>ifc_cookies := (ifc_cookies w1)(i := set_add ck (ifc_cookies w1 i))\<rparr>))"

text \<open>\<open>set.remove\<close> raises KeyError when the cookie is not in the set.\<close>

definition DBusInhibitor_uninhibit ::
  "(inh_id \<Rightarrow> endpoint) \<Rightarrow> inh_id \<Rightarrow> cookie \<Rightarrow> dbus_world \<Rightarrow> py_error option \<times> dbus_world" where
  "DBusInhibitor_uninhibit eps i ck w =
     (let w1 = w\<lparr>dbus_log := dbus_log w @ [UninhibitCall i ck]\<rparr> in
      case uninhibitCall (eps i) (dbus_log w) ck of
        Some e \<Rightarrow> (Some e, w1)
      | None \<Rightarrow>
          (if ck \<in> set (ifc_cookies w1 i)
           then (None, w1\<lparr>ifc_cookies := (ifc_cookies w1)(i := removeAll ck (ifc_cookies w1 i))\<rparr>)
           else (Some KeyError, w1)))"

text \<open>
  \<open>DBusInhibitor.__del__\<close>: one release call for every cookie of the set, failures swallowed.
  The order in which Python iterates a set is its hash order, which the program does not
  determine: \<open>set_iter\<close> stands for it, and gives the elements of the set in that order.
\<close>

fun DBusInhibitor_del_loop :: "inh_id \<Rightarrow> cookie list \<Rightarrow> dbus_world \<Rightarrow> dbus_world" where
  "DBusInhibitor_del_loop i [] w = w"
| "DBusInhibitor_del_loop i (ck # cks) w =
     DBusInhibitor_del_loop i cks (w\<lparr>dbus_log := dbus_log w @ [UninhibitCall i ck]\<rparr>)"

definition DBusInhibitor_del ::
  "(cookie list \<Rightarrow> cookie list) \<Rightarrow> inh_id \<Rightarrow> dbus_world \<Rightarrow> dbus_world" where
  "DBusInhibitor_del set_iter i w = DBusInhibitor_del_loop i (set_iter (ifc_cookies w i)) w"

text \<open>
  \<open>self.cookies\<close> of a scope: the \<open>defaultdict(list)\<close> of the constructor, from group name
  to the (inhibitor, cookie) pairs held, in insertion order; or the empty list that
  \<open>__exit__\<close> assigns.
\<close>

type_synonym held = "inh_id \<times> cookie"

datatype cookies_attr = CookieDict "(string \<times> held list) list" | EmptyList

record NoSuspendLinux = NoSuspend +
  cookies :: cookies_attr
  appName :: string
  reason :: string

definition inherit_warning :: string where
  "inherit_warning =
     ''Inherit is set to false, which means completely redefining the state, including reverting inhibitions. It is hardly possible, because it requires determinig the inhibitions belonging to the current thread, releasing them and then on restore restoring them. We can't do the first part. At least for now. I don't quit need that, so help is welcome.''"

definition NoSuspendLinux_init ::
  "enum_class \<Rightarrow> bool \<Rightarrow> bool \<Rightarrow> bool \<Rightarrow> string \<Rightarrow> string \<Rightarrow> (string \<times> py_value) list
     \<Rightarrow> dbus_world \<Rightarrow> (py_error + NoSuspendLinux) \<times> dbus_world" where
  "NoSuspendLinux_init inherited suspend display inh app rsn kwargs w =
     (case NoSuspend_init (SuspendInhibitionState inherited) suspend display inh
             ((''appName'', PyStr ''Python NoSuspend'') # (''reason'', PyStr rsn) # kwargs) of
        Inl e \<Rightarrow> (Inl e, w)
      | Inr base \<Rightarrow>
          (Inr \<lparr>flag = flag base, inherit = inherit base,
                cookies = CookieDict [], appName = app, reason = rsn\<rparr>,
           if inh then w else w\<lparr>warnings := warnings w @ [inherit_warning]\<rparr>))"

text \<open>
  \<open>enum._decompose(SuspendInhibitionState, v)[0]\<close> of the standard library (Python 3.6 to
  3.10), as the names of the members it returns, greatest value first: the named members
  with a non-zero value contained in \<open>v\<close>; before them, for a non-negative \<open>v\<close>, one unnamed
  pseudo-member (name \<open>None\<close>) for every other bit of \<open>v\<close>; and when there is none of
  either, the member of value \<open>v\<close> itself, \<open>none\<close> for 0 and an unnamed one otherwise.
\<close>

definition unnamed_bits :: "int \<Rightarrow> nat list" where
  "unnamed_bits v = filter (bit v) (rev [2..<nat v])"

definition enumDecompose_names :: "int \<Rightarrow> string option list" where
  "enumDecompose_names v =
     (let named = (if v AND 2 = 2 then [Some ''display''] else []) @
                  (if v AND 1 = 1 then [Some ''suspend''] else []);
          members = (if 0 \<le> v then map (\<lambda>i. None) (unnamed_bits v) else []) @ named
      in if members = [] then (if v = 0 then [Some ''none''] else [None]) else members)"

definition group_warning :: "string \<Rightarrow> string" where
  "group_warning grNm = ''The suspension for `'' @ grNm @
     ''` is not set (either not implemented, or not available in the environment), ignoring''"

text \<open>
  \<open>self.cookies[grNm].append((inhibiter, ck))\<close>: a missing key gets the empty list first,
  at the end of the dictionary; indexing the empty list by a string raises TypeError.
\<close>

fun dict_append :: "string \<Rightarrow> held \<Rightarrow> (string \<times> held list) list \<Rightarrow> (string \<times> held list) list" where
  "dict_append g h [] = [(g, [h])]"
| "dict_append g h ((k, hs) # d) =
     (if k = g then (k, hs @ [h]) # d else (k, hs) # dict_append g h d)"

definition cookies_append :: "string \<Rightarrow> held \<Rightarrow> cookies_attr \<Rightarrow> cookies_attr option" where
  "cookies_append g h c =
     (case c of EmptyList \<Rightarrow> None | CookieDict d \<Rightarrow> Some (CookieDict (dict_append g h d)))"

type_synonym power_ifcs = "(string \<times> (string \<times> (string \<times> inh_id) list) list) list"

text \<open>
  The three loops of \<open>NoSuspendLinux.__enter__\<close>. An exception leaves the loops at once; what
  was done before it stays done.
\<close>

fun enter_inhibiters ::
  "(inh_id \<Rightarrow> endpoint) \<Rightarrow> string \<Rightarrow> (string \<times> inh_id) list \<Rightarrow> NoSuspendLinux \<Rightarrow> dbus_world
     \<Rightarrow> py_error option \<times> NoSuspendLinux \<times> dbus_world" where
  "enter_inhibiters eps grNm [] self w = (None, self, w)"
| "enter_inhibiters eps grNm ((inhibiterName, inhibiter) # de) self w =
     (case DBusInhibitor_inhibit eps inhibiter (appName self) (reason self) w of
        (Inl e, w1) \<Rightarrow> (Some e, self, w1)
      | (Inr ck, w1) \<Rightarrow>
          (case cookies_append grNm (inhibiter, ck) (cookies self) of
             None \<Rightarrow> (Some TypeError, self, w1)
           | Some c \<Rightarrow> enter_inhibiters eps grNm de (self\<lparr>cookies := c\<rparr>) w1))"

fun enter_des ::
  "(inh_id \<Rightarrow> endpoint) \<Rightarrow> string \<Rightarrow> (string \<times> (string \<times> inh_id) list) list \<Rightarrow> NoSuspendLinux
     \<Rightarrow> dbus_world \<Rightarrow> py_error option \<times> NoSuspendLinux \<times> dbus_world" where
  "enter_des eps grNm [] self w = (None, self, w)"
| "enter_des eps grNm ((deName, de) # des) self w =
     (case enter_inhibiters eps grNm de self w of
        (Some e, self1, w1) \<Rightarrow> (Some e, self1, w1)
      | (None, self1, w1) \<Rightarrow> enter_des eps grNm des self1 w1)"

text \<open>
  A group without a name is not a key of the table, and the warning's text cannot be built
  from \<open>None\<close>: TypeError.
\<close>

fun enter_groups ::
  "(inh_id \<Rightarrow> endpoint) \<Rightarrow> power_ifcs \<Rightarrow> string option list \<Rightarrow> NoSuspendLinux \<Rightarrow> dbus_world
     \<Rightarrow> py_error option \<times> NoSuspendLinux \<times> dbus_world" where
  "enter_groups eps powerRelatedIfcs [] self w = (None, self, w)"
| "enter_groups eps powerRelatedIfcs (None # grs) self w = (Some TypeError, self, w)"
| "enter_groups eps powerRelatedIfcs (Some grNm # grs) self w =
     (case map_of powerRelatedIfcs grNm of
        Some des \<Rightarrow>
          (case enter_des eps grNm des self w of
             (Some e, self1, w1) \<Rightarrow> (Some e, self1, w1)
           | (None, self1, w1) \<Rightarrow> enter_groups eps powerRelatedIfcs grs self1 w1)
      | None \<Rightarrow>
          enter_groups eps powerRelatedIfcs grs self
            (w\<lparr>warnings := warnings w @ [group_warning grNm]\<rparr>))"

definition NoSuspendLinux_enter ::
  "(inh_id \<Rightarrow> endpoint) \<Rightarrow> power_ifcs \<Rightarrow> NoSuspendLinux \<Rightarrow> dbus_world
     \<Rightarrow> (py_error + int) \<times> NoSuspendLinux \<times> dbus_world" where
  "NoSuspendLinux_enter eps powerRelatedIfcs self w =
     (case enter_groups eps powerRelatedIfcs (enumDecompose_names (flag self)) self w of
        (Some e, self1, w1) \<Rightarrow> (Inl e, self1, w1)
      | (None, self1, w1) \<Rightarrow> (Inr (flag self1), self1, w1))"

text \<open>
  \<open>NoSuspendLinux.__exit__\<close>: \<open>self.cookies.values()\<close> is an AttributeError on a list; the
  release calls are made in order and nothing catches what one of them raises; the
  assignment of the empty list is reached only when all of them returned.
\<close>

fun exit_group :: "(inh_id \<Rightarrow> endpoint) \<Rightarrow> held list \<Rightarrow> dbus_world \<Rightarrow> py_error option \<times> dbus_world" where
  "exit_group eps [] w = (None, w)"
| "exit_group eps ((inhibiter, cookie) # grp) w =
     (case DBusInhibitor_uninhibit eps inhibiter cookie w of
        (Some e, w1) \<Rightarrow> (Some e, w1)
      | (None, w1) \<Rightarrow> exit_group eps grp w1)"

fun exit_groups :: "(inh_id \<Rightarrow> endpoint) \<Rightarrow> held list list \<Rightarrow> dbus_world \<Rightarrow> py_error option \<times> dbus_world" where
  "exit_groups eps [] w = (None, w)"
| "exit_groups eps (grp # grps) w =
     (case exit_group eps grp w of
        (Some e, w1) \<Rightarrow> (Some e, w1)
      | (None, w1) \<Rightarrow> exit_groups eps grps w1)"

definition NoSuspendLinux_exit ::
  "(inh_id \<Rightarrow> endpoint) \<Rightarrow> NoSuspendLinux \<Rightarrow> dbus_world \<Rightarrow> py_error option \<times> NoSuspendLinux \<times> dbus_world" where
  "NoSuspendLinux_exit eps self w =
     (case cookies self of
        EmptyList \<Rightarrow> (Some AttributeError, self, w)
      | CookieDict d \<Rightarrow>
          (case exit_groups eps (map snd d) w of
             (Some e, w1) \<Rightarrow> (Some e, self, w1)
           | (None, w1) \<Rightarrow> (None, self\<lparr>cookies := EmptyList\<rparr>, w1)))"

text \<open>
  \<open>NoSuspendLinux.__del__\<close>: \<open>for ck in self.cookies\<close> runs over the keys of the dictionary
  (the group names), or over the empty list; \<open>self.uninhibit\<close> is an attribute the class
  does not have, so every round raises AttributeError before any call, and the
  \<open>except BaseException\<close> swallows it.
\<close>

definition NoSuspendLinux_uninhibit :: "string \<Rightarrow> dbus_world \<Rightarrow> py_error option \<times> dbus_world" where
  "NoSuspendLinux_uninhibit ck w = (Some AttributeError, w)"

fun del_loop :: "string list \<Rightarrow> dbus_world \<Rightarrow> dbus_world" where
  "del_loop [] w = w"
| "del_loop (ck # cks) w =
     (case NoSuspendLinux_uninhibit ck w of
        (Some e, w1) \<Rightarrow> del_loop cks w1
      | (None, w1) \<Rightarrow> del_loop cks w1)"

definition NoSuspendLinux_del :: "NoSuspendLinux \<Rightarrow> dbus_world \<Rightarrow> dbus_world" where
  "NoSuspendLinux_del self w =
     (case cookies self of
        EmptyList \<Rightarrow> del_loop [] w
      | CookieDict d \<Rightarrow> del_loop (map fst d) w)"

text \<open>The handles a scope holds, in the order \<open>__exit__\<close> releases them.\<close>

definition held_handles :: "cookies_attr \<Rightarrow> held list" where
  "held_handles c = (case c of EmptyList \<Rightarrow> [] | CookieDict d \<Rightarrow> concat (map snd d))"

text \<open>
  Two readings of the call log, used to state what a scope did: the outcome of every acquire
  call of a stretch \<open>cs\<close> of the log that was made after the calls \<open>l\<close> (the handle obtained,
  or the error raised), and the release call that a held pair stands for.
\<close>

fun acquire_results ::
  "(inh_id \<Rightarrow> endpoint) \<Rightarrow> dbus_call list \<Rightarrow> dbus_call list \<Rightarrow> (py_error + held) list" where
  "acquire_results eps l [] = []"
| "acquire_results eps l (InhibitCall i a r # cs) =
     (case inhibitCall (eps i) l a r of Inl e \<Rightarrow> Inl e | Inr ck \<Rightarrow> Inr (i, ck))
       # acquire_results eps (l @ [InhibitCall i a r]) cs"
| "acquire_results eps l (UninhibitCall i ck # cs) =
     acquire_results eps (l @ [UninhibitCall i ck]) cs"

definition release_call :: "held \<Rightarrow> dbus_call" where
  "release_call h = UninhibitCall (fst h) (snd h)"

text \<open>
  What a stretch of \<open>__enter__\<close> does, from scope \<open>self\<close> and world \<open>w\<close> to \<open>self1\<close> and
  \<open>w1\<close> with outcome \<open>r\<close>: it makes the calls \<open>cs\<close>, all of which but possibly the last
  return a handle; the handles \<open>hs\<close> obtained are added to the held pairs and nothing else
  of the scope changes; an error of an endpoint is the outcome, and the last thing done.
\<close>

definition enter_effect ::
  "(inh_id \<Rightarrow> endpoint) \<Rightarrow> NoSuspendLinux \<Rightarrow> dbus_world \<Rightarrow> py_error option \<Rightarrow> NoSuspendLinux \<Rightarrow> dbus_world \<Rightarrow> bool" where
  "enter_effect eps self w r self1 w1 =
     (\<exists>cs hs d1 ws. dbus_log w1 = dbus_log w @ cs \<and> self1 = self\<lparr>cookies := CookieDict d1\<rparr> \<and>
        mset (concat (map snd d1)) = mset (held_handles (cookies self)) + mset hs \<and>
        (acquire_results eps (dbus_log w) cs = map Inr hs \<and> (r = None \<or> r = Some TypeError) \<or>
         (\<exists>e. acquire_results eps (dbus_log w) cs = map Inr hs @ [Inl e] \<and> r = Some e)) \<and>
        warnings w1 = warnings w @ ws)"

text \<open>
  What releasing the held pairs \<open>hs\<close> does: either every release call is made, in order, and
  none fails; or the calls stop at the first pair \<open>h\<close> whose release fails (the endpoint
  raises, or the cookie is not in the inhibitor's set), the error is the outcome, and the
  pairs \<open>post\<close> after it get no call.
\<close>

definition exit_effect ::
  "(inh_id \<Rightarrow> endpoint) \<Rightarrow> held list \<Rightarrow> dbus_world \<Rightarrow> py_error option \<Rightarrow> dbus_world \<Rightarrow> bool" where
  "exit_effect eps hs w r w1 =
     (warnings w1 = warnings w \<and>
      (r = None \<and> dbus_log w1 = dbus_log w @ map release_call hs \<or>
       (\<exists>e pre h post. r = Some e \<and> hs = pre @ h # post \<and>
          dbus_log w1 = dbus_log w @ map release_call (pre @ [h]) \<and>
          (uninhibitCall (eps (fst h)) (dbus_log w @ map release_call pre) (snd h) = Some e \<or>
           uninhibitCall (eps (fst h)) (dbus_log w @ map release_call pre) (snd h) = None \<and>
             e = KeyError))))"

text \<open>
  The outcome of the release call for the held pair \<open>h\<close>, when it is made from the world \<open>w\<close>
  after the release calls for the pairs \<open>pre\<close>, all of which returned: the error the endpoint
  raises; or KeyError, when the endpoint returns and the cookie is not in the set of its
  inhibitor (it was not there in \<open>w\<close>, or one of the calls before removed it); or none.
\<close>

definition release_outcome ::
  "(inh_id \<Rightarrow> endpoint) \<Rightarrow> dbus_world \<Rightarrow> held list \<Rightarrow> held \<Rightarrow> py_error option" where
  "release_outcome eps w pre h =
     (case uninhibitCall (eps (fst h)) (dbus_log w @ map release_call pre) (snd h) of
        Some e \<Rightarrow> Some e
      | None \<Rightarrow>
          (if snd h \<in> set (ifc_cookies w (fst h)) \<and> h \<notin> set pre then None else Some KeyError))"

text \<open>
  The world \<open>w0\<close> that the release calls for the pairs \<open>dn\<close>, all returning, make of the
  world \<open>w\<close>: the calls are logged, and the cookies released are out of their inhibitors'
  sets.
\<close>

definition released ::
  "dbus_world \<Rightarrow> held list \<Rightarrow> dbus_world \<Rightarrow> bool" where
  "released w dn w0 =
     (dbus_log w0 = dbus_log w @ map release_call dn \<and> warnings w0 = warnings w \<and>
      (\<forall>i. set (ifc_cookies w0 i) = set (ifc_cookies w i) - {ck. (i, ck) \<in> set dn}))"

section \<open>Concrete inputs\<close>

text \<open>
  The inputs of the witnesses and counterexamples: a world in which nothing has happened
  yet; endpoints that answer every acquire call of inhibitor \<open>i\<close> with the cookie \<open>7 + i\<close>
  and accept every release call; the same endpoints with an acquire call that raises on
  inhibitor 1, or with a release call that raises on inhibitor 0; a table of discovered
  inhibitors with the two keys of \<open>dbusPowerRelatedInterfaces\<close>; and the scope that
  \<open>NoSuspendLinux.__init__\<close> constructs with its default \<open>appName\<close> and \<open>reason\<close>, for the
  flags \<open>f\<close>. Before them, some of the attributes that an \<open>IntFlag\<close> class inherits in
  CPython, with \<open>__itemsize__\<close> as on a 64-bit build.
\<close>

definition ex_inherited :: enum_class where
  "ex_inherited = map_of
     [(''real'', OtherAttr), (''imag'', OtherAttr), (''numerator'', OtherAttr),
      (''denominator'', OtherAttr), (''bit_length'', OtherAttr), (''conjugate'', OtherAttr),
      (''to_bytes'', OtherAttr), (''from_bytes'', OtherAttr), (''mro'', OtherAttr),
      (''__name__'', OtherAttr), (''__module__'', OtherAttr), (''__members__'', OtherAttr),
      (''__itemsize__'', IntAttr 4)]"

definition ex_world :: dbus_world where
  "ex_world = \<lparr>ifc_cookies = (\<lambda>i. []), dbus_log = [], warnings = []\<rparr>"

definition ex_eps :: "inh_id \<Rightarrow> endpoint" where
  "ex_eps i = \<lparr>inhibitCall = (\<lambda>l a r. Inr (7 + i)), uninhibitCall = (\<lambda>l ck. None)\<rparr>"

definition ex_eps_acquire_fails :: "inh_id \<Rightarrow> endpoint" where
  "ex_eps_acquire_fails i =
     \<lparr>inhibitCall = (\<lambda>l a r. if i = 1 then Inl DBusException else Inr (7 + i)),
      uninhibitCall = (\<lambda>l ck. None)\<rparr>"

definition ex_eps_release_fails :: "inh_id \<Rightarrow> endpoint" where
  "ex_eps_release_fails i =
     \<lparr>inhibitCall = (\<lambda>l a r. Inr (7 + i)),
      uninhibitCall = (\<lambda>l ck. if i = 0 then Some DBusException else None)\<rparr>"

definition ex_ifcs :: power_ifcs where
  "ex_ifcs =
     [(''suspend'', [(''freedesktop'', [(''Inhibit'', 0), (''login1'', 1)]),
                     (''kde'', [(''PolicyAgent'', 2)])]),
      (''screensaver'', [(''freedesktop'', [(''ScreenSaver'', 3)])])]"

definition ex_scope :: "int \<Rightarrow> NoSuspendLinux" where
  "ex_scope f = \<lparr>flag = f, inherit = True, cookies = CookieDict [],
                 appName = ''Python NoSuspend'', reason = ''NoSuspend was called''\<rparr>"

text \<open>
  The scope \<open>ex_scope 1\<close> (the default request, \<open>suspend\<close>) entered where every call succeeds,
  and then left; and the same scope entered and left where the release call of inhibitor 0
  raises. Each is the triple of outcome, scope and world that the method leaves.
\<close>

definition ex_entered :: "(py_error + int) \<times> NoSuspendLinux \<times> dbus_world" where
  "ex_entered = NoSuspendLinux_enter ex_eps ex_ifcs (ex_scope 1) ex_world"

definition ex_exited :: "py_error option \<times> NoSuspendLinux \<times> dbus_world" where
  "ex_exited = NoSuspendLinux_exit ex_eps (fst (snd ex_entered)) (snd (snd ex_entered))"

definition ex_entered_rf :: "(py_error + int) \<times> NoSuspendLinux \<times> dbus_world" where
  "ex_entered_rf = NoSuspendLinux_enter ex_eps_release_fails ex_ifcs (ex_scope 1) ex_world"

definition ex_exited_rf :: "py_error option \<times> NoSuspendLinux \<times> dbus_world" where
  "ex_exited_rf =
     NoSuspendLinux_exit ex_eps_release_fails (fst (snd ex_entered_rf)) (snd (snd ex_entered_rf))"

definition ex_entered_af :: "(py_error + int) \<times> NoSuspendLinux \<times> dbus_world" where
  "ex_entered_af = NoSuspendLinux_enter ex_eps_acquire_fails ex_ifcs (ex_scope 1) ex_world"

definition ex_exited_af :: "py_error option \<times> NoSuspendLinux \<times> dbus_world" where
  "ex_exited_af =
     NoSuspendLinux_exit ex_eps_acquire_fails (fst (snd ex_entered_af)) (snd (snd ex_entered_af))"

section \<open>Properties\<close>

text \<open>
  C9: composing two flag values is the bitwise union, commutative and idempotent, and it is
  a total computation: the bit \<open>n\<close> of the result is set exactly when it is set in either
  argument.
\<close>

theorem compose_commutative_idempotent:
  "IntFlag_or a b = IntFlag_or b a \<and> IntFlag_or a a = a \<and>
   (bit (IntFlag_or a b) n \<longleftrightarrow> bit a n \<or> bit b n)"
  by (simp add: IntFlag_or_def or.commute bit_or_iff)

text \<open>
  C3: on the single-call backend, \<open>__enter__\<close> followed at once by \<open>__exit__\<close> leaves the
  recorded bitmask at its value before the entry, whatever the scope and the bitmask:
  \<open>__enter__\<close> saves the previous bitmask in \<open>prev\<close> and \<open>__exit__\<close>, which returns normally,
  sets it again.
\<close>

theorem enter_exit_roundtrip:
  "(case NoSuspendWinVistaPlus_enter self b of (r, self1, b1) \<Rightarrow>
      case NoSuspendWinVistaPlus_exit self1 b1 of (r', self2, b2) \<Rightarrow>
        r' = None \<and> bitmask b2 = bitmask b \<and> prev self1 = Some (bitmask b))"
  by (simp add: NoSuspendWinVistaPlus_enter_def NoSuspendWinVistaPlus_exit_def getCurrentState_def
      setThreadExecutionState_def kernel32_SetThreadExecutionState_def Let_def)

text \<open>
  C7: \<open>__enter__\<close> of the single-call backend returns the stored request flags united with
  the current process-wide state when \<open>inherit\<close> is true, and exactly the stored request
  flags when it is false.
\<close>

theorem enter_effective_flags:
  "(inherit self \<longrightarrow>
      fst (NoSuspendWinVistaPlus_enter self b) = Inr (IntFlag_or (flag self) (bitmask b))) \<and>
   (\<not> inherit self \<longrightarrow> fst (NoSuspendWinVistaPlus_enter self b) = Inr (flag self))"
  by (simp add: NoSuspendWinVistaPlus_enter_def getCurrentState_def IntFlag_or_def
      setThreadExecutionState_def kernel32_SetThreadExecutionState_def Let_def)

text \<open>
  A scope that requests \<open>suspend\<close> (with the CONTINUOUS marker of the constructor) entered
  while \<open>display\<close> is inhibited: the value returned has both bits.
\<close>

theorem enter_effective_flags_witness:
  "fst (NoSuspendWinVistaPlus_enter \<lparr>flag = 0x80000001, inherit = True, prev = None, current = None\<rparr> \<lparr>bitmask = 2, calls = []\<rparr>) = Inr 0x80000003"
  using enter_effective_flags [of "\<lparr>flag = 0x80000001, inherit = True, prev = None, current = None\<rparr>" "\<lparr>bitmask = 2, calls = []\<rparr>"]
  by (simp add: IntFlag_or_def)

subsection \<open>The constructor\<close>

lemma init_kwargs_skip:
  "\<not> accepted E (k, v) \<Longrightarrow> init_kwargs E f ((k, v) # kws) = init_kwargs E f kws"
  by (cases v) (simp_all add: accepted_def)

lemma init_kwargs_use:
  "E k = Some (IntAttr n) \<Longrightarrow>
   init_kwargs E f ((k, PyBool b) # kws) = init_kwargs E (IntFlag_or f (bool_times b n)) kws"
  by (simp add: hasattr_def getattr_int_def)

lemma init_kwargs_filter: "init_kwargs E f kws = init_kwargs E f (filter (accepted E) kws)"
proof (induction kws arbitrary: f)
  case Nil
  show ?case by simp
next
  case (Cons kv kws)
  obtain k v where kv: "kv = (k, v)" by (cases kv)
  show ?case
  proof (cases "accepted E (k, v)")
    case False
    with Cons kv show ?thesis by (simp add: init_kwargs_skip)
  next
    case True
    then obtain b where v: "v = PyBool b" by (cases v) (simp_all add: accepted_def)
    from True Cons kv v show ?thesis by (simp split: sum.splits)
  qed
qed

lemma init_kwargs_bits:
  assumes "\<forall>(k, v) \<in> set kws. accepted E (k, v) \<longrightarrow> E k \<noteq> Some OtherAttr"
  shows "\<exists>g. init_kwargs E f kws = Inr g \<and>
     (\<forall>i. bit g i \<longleftrightarrow>
        bit f i \<or> (\<exists>k n. (k, PyBool True) \<in> set kws \<and> E k = Some (IntAttr n) \<and> bit n i))"
  using assms
proof (induction kws arbitrary: f)
  case Nil
  show ?case by simp
next
  case (Cons kv kws)
  obtain k v where kv: "kv = (k, v)" by (cases kv)
  from Cons.prems have rest: "\<forall>(k, v) \<in> set kws. accepted E (k, v) \<longrightarrow> E k \<noteq> Some OtherAttr"
    by simp
  show ?case
  proof (cases "accepted E (k, v)")
    case False
    from Cons.IH[OF rest, of f] obtain g where
      g: "init_kwargs E f kws = Inr g"
         "\<And>i. bit g i \<longleftrightarrow>
            bit f i \<or> (\<exists>k n. (k, PyBool True) \<in> set kws \<and> E k = Some (IntAttr n) \<and> bit n i)"
      by blast
    have "\<not> (v = PyBool True \<and> (\<exists>n. E k = Some (IntAttr n)))"
      using False by (auto simp: accepted_def hasattr_def)
    then have "\<And>i. (\<exists>k' n. (k', PyBool True) \<in> set (kv # kws) \<and> E k' = Some (IntAttr n) \<and> bit n i)
        \<longleftrightarrow> (\<exists>k n. (k, PyBool True) \<in> set kws \<and> E k = Some (IntAttr n) \<and> bit n i)"
      using kv by auto
    with g False kv show ?thesis by (simp add: init_kwargs_skip)
  next
    case True
    then obtain b where v: "v = PyBool b" by (cases v) (simp_all add: accepted_def)
    from True Cons.prems kv obtain n where n: "E k = Some (IntAttr n)"
      by (cases "E k"; simp add: accepted_def hasattr_def) (metis attr.exhaust)
    let ?f = "IntFlag_or f (bool_times b n)"
    from Cons.IH[OF rest, of ?f] obtain g where
      g: "init_kwargs E ?f kws = Inr g"
         "\<And>i. bit g i \<longleftrightarrow>
            bit ?f i \<or> (\<exists>k n. (k, PyBool True) \<in> set kws \<and> E k = Some (IntAttr n) \<and> bit n i)"
      by blast
    have "\<And>i. bit ?f i \<longleftrightarrow> bit f i \<or> (b \<and> bit n i)"
      by (simp add: IntFlag_or_def bool_times_def bit_or_iff)
    with g(2) n v kv
    have "\<And>i. bit g i \<longleftrightarrow>
        bit f i \<or> (\<exists>k' n. (k', PyBool True) \<in> set (kv # kws) \<and> E k' = Some (IntAttr n) \<and> bit n i)"
      by auto
    moreover have "init_kwargs E f (kv # kws) = init_kwargs E ?f kws"
      using init_kwargs_use[of E k n f b kws] n v kv by simp
    ultimately show ?thesis using g(1) by (simp del: init_kwargs.simps)
  qed
qed

lemma init_kwargs_raises:
  "(k, PyBool b) \<in> set kws \<Longrightarrow> E k = Some OtherAttr \<Longrightarrow> init_kwargs E f kws = Inl TypeError"
proof (induction kws arbitrary: f)
  case Nil
  then show ?case by simp
next
  case (Cons kv kws)
  obtain k' v' where kv: "kv = (k', v')" by (cases kv)
  have acc: "accepted E (k, PyBool b)"
    using Cons.prems(2) by (simp add: accepted_def hasattr_def)
  show ?case
  proof (cases "accepted E (k', v')")
    case False
    with acc kv have "kv \<noteq> (k, PyBool b)" by auto
    with Cons.prems(1) have "(k, PyBool b) \<in> set kws" by simp
    from Cons.IH[OF this Cons.prems(2), of f] False kv show ?thesis
      by (simp add: init_kwargs_skip)
  next
    case True
    then obtain b' where v': "v' = PyBool b'" by (cases v') (simp_all add: accepted_def)
    from True obtain a where a: "E k' = Some a" by (auto simp: accepted_def hasattr_def)
    show ?thesis
    proof (cases a)
      case OtherAttr
      with a kv v' show ?thesis by (simp add: hasattr_def getattr_int_def)
    next
      case (IntAttr n)
      with a Cons.prems(2) have "k' \<noteq> k" by auto
      with Cons.prems(1) kv have "(k, PyBool b) \<in> set kws" by simp
      from Cons.IH[OF this Cons.prems(2), of "IntFlag_or f (bool_times b' n)"]
        init_kwargs_use[of E k' n f b' kws] a IntAttr kv v'
      show ?thesis by simp
    qed
  qed
qed

text \<open>
  C10, as the code has it. In \<open>NoSuspend.__init__\<close> the extra keyword arguments that are not
  both named after an attribute of \<open>STATE_ENUM\<close> and bool-valued change nothing: the constructor
  gives the same result (flags, or exception) with them left out. With \<open>suspend\<close> and
  \<open>display\<close> members of the enumeration: when a bool-valued keyword names an attribute that
  is no integer (the docstring, an inherited method or descriptor), the constructor raises
  TypeError; otherwise the scope is constructed, with the \<open>inherit\<close> given, and a bit is set in
  its flags exactly when it is a bit of \<open>suspend\<close> or \<open>display\<close> and that parameter is true,
  or a bit of an attribute named by a keyword whose value is \<open>True\<close>.
\<close>

theorem init_flags_from_keywords:
  assumes "getattr_int E ''suspend'' = Inr s" and "getattr_int E ''display'' = Inr d"
  shows "NoSuspend_init E suspend display inh kwargs =
           NoSuspend_init E suspend display inh (filter (accepted E) kwargs) \<and>
         ((\<exists>k b. (k, PyBool b) \<in> set kwargs \<and> E k = Some OtherAttr) \<longrightarrow>
            NoSuspend_init E suspend display inh kwargs = Inl TypeError) \<and>
         (\<not> (\<exists>k b. (k, PyBool b) \<in> set kwargs \<and> E k = Some OtherAttr) \<longrightarrow>
            (\<exists>self. NoSuspend_init E suspend display inh kwargs = Inr self \<and> inherit self = inh \<and>
               (\<forall>i. bit (flag self) i \<longleftrightarrow>
                  (suspend \<and> bit s i) \<or> (display \<and> bit d i) \<or>
                  (\<exists>k n. (k, PyBool True) \<in> set kwargs \<and> E k = Some (IntAttr n) \<and> bit n i))))"
proof (intro conjI impI)
  show "NoSuspend_init E suspend display inh kwargs =
      NoSuspend_init E suspend display inh (filter (accepted E) kwargs)"
    by (simp add: NoSuspend_init_def init_kwargs_filter[symmetric] split: sum.split)
next
  assume "\<exists>k b. (k, PyBool b) \<in> set kwargs \<and> E k = Some OtherAttr"
  then obtain k b where kb: "(k, PyBool b) \<in> set kwargs" "E k = Some OtherAttr" by blast
  have "init_kwargs E (IntFlag_or (bool_times suspend s) (bool_times display d)) kwargs =
      Inl TypeError"
    using kb by (rule init_kwargs_raises[where k=k and b=b])
  with assms show "NoSuspend_init E suspend display inh kwargs = Inl TypeError"
    by (simp add: NoSuspend_init_def)
next
  assume no: "\<not> (\<exists>k b. (k, PyBool b) \<in> set kwargs \<and> E k = Some OtherAttr)"
  have h3: "\<forall>(k, v) \<in> set kwargs. accepted E (k, v) \<longrightarrow> E k \<noteq> Some OtherAttr"
  proof (clarify)
    fix k v
    assume kv: "(k, v) \<in> set kwargs" and "accepted E (k, v)" and o: "E k = Some OtherAttr"
    then obtain b where "v = PyBool b" by (cases v) (simp_all add: accepted_def)
    with kv o no show False by blast
  qed
  let ?f = "IntFlag_or (bool_times suspend s) (bool_times display d)"
  from init_kwargs_bits[OF h3, of ?f] obtain g where
    g: "init_kwargs E ?f kwargs = Inr g"
       "\<And>i. bit g i \<longleftrightarrow>
          bit ?f i \<or> (\<exists>k n. (k, PyBool True) \<in> set kwargs \<and> E k = Some (IntAttr n) \<and> bit n i)"
    by blast
  have f: "\<And>i. bit ?f i \<longleftrightarrow> (suspend \<and> bit s i) \<or> (display \<and> bit d i)"
    by (simp add: IntFlag_or_def bool_times_def bit_or_iff)
  have "NoSuspend_init E suspend display inh kwargs = Inr \<lparr>flag = g, inherit = inh\<rparr>"
    using assms g(1) by (simp add: NoSuspend_init_def)
  moreover have "\<forall>i. bit g i \<longleftrightarrow>
               (suspend \<and> bit s i) \<or> (display \<and> bit d i) \<or>
               (\<exists>k n. (k, PyBool True) \<in> set kwargs \<and> E k = Some (IntAttr n) \<and> bit n i)"
    using g(2) f by simp
  ultimately show "\<exists>self. NoSuspend_init E suspend display inh kwargs = Inr self \<and> inherit self = inh \<and>
               (\<forall>i. bit (flag self) i \<longleftrightarrow>
                  (suspend \<and> bit s i) \<or> (display \<and> bit d i) \<or>
                  (\<exists>k n. (k, PyBool True) \<in> set kwargs \<and> E k = Some (IntAttr n) \<and> bit n i))"
    by simp
qed

text \<open>
  \<open>NoSuspend(True, False, True, AWAYMODE_REQUIRED=True, USER_PRESENT=True, appName="cli",
  CONTINUOUS=1, nosuch=True, DISPLAY_REQUIRED=False, __itemsize__=False)\<close> on
  \<open>EXECUTION_STATE\<close>: the keywords \<open>appName\<close>, \<open>CONTINUOUS\<close> (no bool) and \<open>nosuch\<close> are
  ignored, the flags are \<open>suspend | AWAYMODE_REQUIRED | USER_PRESENT\<close>. With \<open>real=True\<close> the
  constructor raises.
\<close>

theorem init_flags_from_keywords_witness:
  "NoSuspend_init (EXECUTION_STATE ex_inherited) True False True
      [(''AWAYMODE_REQUIRED'', PyBool True), (''USER_PRESENT'', PyBool True),
       (''appName'', PyStr ''cli''), (''CONTINUOUS'', PyInt 1), (''nosuch'', PyBool True),
       (''DISPLAY_REQUIRED'', PyBool False), (''__itemsize__'', PyBool False)] =
   NoSuspend_init (EXECUTION_STATE ex_inherited) True False True
      [(''AWAYMODE_REQUIRED'', PyBool True), (''USER_PRESENT'', PyBool True),
       (''DISPLAY_REQUIRED'', PyBool False), (''__itemsize__'', PyBool False)] \<and>
   NoSuspend_init (EXECUTION_STATE ex_inherited) True False True
      [(''AWAYMODE_REQUIRED'', PyBool True), (''USER_PRESENT'', PyBool True),
       (''appName'', PyStr ''cli''), (''CONTINUOUS'', PyInt 1), (''nosuch'', PyBool True),
       (''DISPLAY_REQUIRED'', PyBool False), (''__itemsize__'', PyBool False)] =
     Inr \<lparr>flag = 0x45, inherit = True\<rparr> \<and>
   NoSuspend_init (EXECUTION_STATE ex_inherited) True False True
      [(''USER_PRESENT'', PyBool True), (''real'', PyBool True)] = Inl TypeError"
proof -
  let ?E = "EXECUTION_STATE ex_inherited"
  let ?kw = "[(''AWAYMODE_REQUIRED'', PyBool True), (''USER_PRESENT'', PyBool True),
       (''appName'', PyStr ''cli''), (''CONTINUOUS'', PyInt 1), (''nosuch'', PyBool True),
       (''DISPLAY_REQUIRED'', PyBool False), (''__itemsize__'', PyBool False)]"
  have h1: "getattr_int ?E ''suspend'' = Inr 1"
    by (simp add: getattr_int_def EXECUTION_STATE_def class_attrs_def)
  have h2: "getattr_int ?E ''display'' = Inr 2"
    by (simp add: getattr_int_def EXECUTION_STATE_def class_attrs_def)
  have filt: "filter (accepted ?E) ?kw =
      [(''AWAYMODE_REQUIRED'', PyBool True), (''USER_PRESENT'', PyBool True),
       (''DISPLAY_REQUIRED'', PyBool False), (''__itemsize__'', PyBool False)]"
    by (simp add: accepted_def hasattr_def EXECUTION_STATE_def class_attrs_def ex_inherited_def)
  have val: "NoSuspend_init ?E True False True ?kw = Inr \<lparr>flag = 0x45, inherit = True\<rparr>"
    by (simp add: NoSuspend_init_def getattr_int_def EXECUTION_STATE_def class_attrs_def
        ex_inherited_def hasattr_def IntFlag_or_def bool_times_def)
  have bad: "\<exists>k b. (k, PyBool b) \<in> set [(''USER_PRESENT'', PyBool True), (''real'', PyBool True)] \<and>
      ?E k = Some OtherAttr"
    by (rule exI[of _ "''real''"], rule exI[of _ True])
       (simp add: EXECUTION_STATE_def class_attrs_def ex_inherited_def)
  from init_flags_from_keywords[OF h1 h2, of True False True
      "[(''USER_PRESENT'', PyBool True), (''real'', PyBool True)]"] bad
  have raises: "NoSuspend_init ?E True False True
      [(''USER_PRESENT'', PyBool True), (''real'', PyBool True)] = Inl TypeError"
    by blast
  from init_flags_from_keywords[OF h1 h2, of True False True ?kw] filt
  have "NoSuspend_init ?E True False True ?kw =
      NoSuspend_init ?E True False True
        [(''AWAYMODE_REQUIRED'', PyBool True), (''USER_PRESENT'', PyBool True),
         (''DISPLAY_REQUIRED'', PyBool False), (''__itemsize__'', PyBool False)]"
    by simp
  with val raises show ?thesis by simp
qed

text \<open>
  C10 as stated fails there: \<open>NoSuspend(__doc__=False)\<close> and \<open>NoSuspend(real=True)\<close> on
  \<open>SuspendInhibitionState\<close>. The keyword is accepted, and the constructor raises TypeError:
  no flags are stored.
\<close>

theorem init_raises_on_non_integer_attribute:
  "accepted (SuspendInhibitionState ex_inherited) (''__doc__'', PyBool False) \<and>
   NoSuspend_init (SuspendInhibitionState ex_inherited) True False True
     [(''__doc__'', PyBool False)] = Inl TypeError \<and>
   accepted (SuspendInhibitionState ex_inherited) (''real'', PyBool True) \<and>
   NoSuspend_init (SuspendInhibitionState ex_inherited) True False True
     [(''real'', PyBool True)] = Inl TypeError"
  by (simp add: accepted_def hasattr_def NoSuspend_init_def getattr_int_def
      SuspendInhibitionState_def class_attrs_def ex_inherited_def)

subsection \<open>The Dummy family\<close>

text \<open>
  C8: for a class of the Dummy family (\<open>NoSuspendDummy\<close> and its subclasses
  \<open>NoSuspendNotAvailable\<close>, \<open>NoSuspendNotImplemented\<close>, \<open>NoSuspendDependenciesAreMissing\<close>) the
  constructor accepts any arguments and raises nothing, \<open>__enter__\<close> returns
  \<open>SuspendInhibitionState.none\<close> (0), and \<open>__exit__\<close> raises nothing and changes nothing. The
  query \<open>issubclass(cls, NoSuspendDummy)\<close>, on the class alone, tells the family from the
  inhibiting backends; the query of the docstrings, \<open>issubclass(cls, NoSuspendNotAvailable)\<close>,
  holds for every class of the family but \<open>NoSuspendDummy\<close> itself.
\<close>

theorem dummy_family_contract:
  assumes "issubclass c NoSuspendDummy"
  shows "family_init c args kwargs = Some None \<and>
         (\<exists>ws'. family_enter c ws = Some (0, ws')) \<and>
         family_exit c ws = Some (None, ws) \<and>
         (issubclass c NoSuspendNotAvailable \<longleftrightarrow> c \<noteq> NoSuspendDummy) \<and>
         \<not> issubclass NoSuspendWinVistaPlus_class NoSuspendDummy \<and>
         \<not> issubclass NoSuspendWinXP NoSuspendDummy \<and>
         \<not> issubclass NoSuspendLinux_class NoSuspendDummy"
  using assms
  by (cases c)
     (simp_all add: issubclass_def family_init_def family_enter_def family_exit_def resolve_def
        NoSuspendDummy_init_def NoSuspendDummy_enter_def NoSuspendDummy_exit_def
        NoSuspendNotImplemented_enter_def NoSuspendDependenciesAreMissing_enter_def)

text \<open>\<open>NoSuspendNotImplemented\<close>: entering warns and returns 0.\<close>

theorem dummy_family_contract_witness:
  "family_init NoSuspendNotImplemented [PyInt 5] [(''display'', PyBool True)] = Some None \<and>
   family_enter NoSuspendNotImplemented [] = Some (0, [not_implemented_warning]) \<and>
   family_exit NoSuspendNotImplemented [not_implemented_warning] = Some (None, [not_implemented_warning]) \<and>
   issubclass NoSuspendNotImplemented NoSuspendNotAvailable"
proof -
  have h: "issubclass NoSuspendNotImplemented NoSuspendDummy"
    by (simp add: issubclass_def)
  have e: "family_enter NoSuspendNotImplemented [] = Some (0, [not_implemented_warning])"
    by (simp add: family_enter_def resolve_def NoSuspendNotImplemented_enter_def NoSuspendDummy_enter_def)
  from dummy_family_contract[OF h, of "[PyInt 5]" "[(''display'', PyBool True)]" "[not_implemented_warning]"] e
  show ?thesis by simp
qed

subsection \<open>The loops of the multi-endpoint backend\<close>

lemma acquire_results_append:
  "acquire_results eps l (cs1 @ cs2) = acquire_results eps l cs1 @ acquire_results eps (l @ cs1) cs2"
  by (induction eps l cs1 rule: acquire_results.induct) simp_all

lemma mset_dict_append:
  "mset (concat (map snd (dict_append g h d))) = mset (concat (map snd d)) + {#h#}"
  by (induction d) auto

lemma inhibit_log:
  "DBusInhibitor_inhibit eps i a r w = (x, w1) \<Longrightarrow>
     dbus_log w1 = dbus_log w @ [InhibitCall i a r] \<and> warnings w1 = warnings w \<and>
     x = inhibitCall (eps i) (dbus_log w) a r"
  by (auto simp: DBusInhibitor_inhibit_def Let_def split: sum.splits)

lemma enter_inhibiters_char:
  "cookies self = CookieDict d \<Longrightarrow> enter_inhibiters eps g de self w = (r, self1, w1) \<Longrightarrow>
   \<exists>cs hs d1. dbus_log w1 = dbus_log w @ cs \<and> self1 = self\<lparr>cookies := CookieDict d1\<rparr> \<and>
     mset (concat (map snd d1)) = mset (concat (map snd d)) + mset hs \<and>
     (acquire_results eps (dbus_log w) cs = map Inr hs \<and> r = None \<or>
      (\<exists>e. acquire_results eps (dbus_log w) cs = map Inr hs @ [Inl e] \<and> r = Some e)) \<and>
     warnings w1 = warnings w"
proof (induction de arbitrary: self d w)
  case Nil
  then show ?case
    by (intro exI[of _ "[]"] exI[of _ d]) auto
next
  case (Cons p de)
  obtain nm i where p: "p = (nm, i)" by (cases p)
  obtain x w' where inh: "DBusInhibitor_inhibit eps i (appName self) (reason self) w = (x, w')"
    by (cases "DBusInhibitor_inhibit eps i (appName self) (reason self) w")
  note il = inhibit_log[OF inh]
  show ?case
  proof (cases x)
    case (Inl e)
    with Cons.prems p inh have "r = Some e" "self1 = self" "w1 = w'" by auto
    moreover from il Inl have "inhibitCall (eps i) (dbus_log w) (appName self) (reason self) = Inl e"
      by simp
    ultimately show ?thesis using il Cons.prems(1)
      by - (rule exI[of _ "[InhibitCall i (appName self) (reason self)]"], rule exI[of _ "[]"],
            rule exI[of _ d], auto)
  next
    case (Inr ck)
    let ?self' = "self\<lparr>cookies := CookieDict (dict_append g (i, ck) d)\<rparr>"
    from Cons.prems p inh Inr have rec: "enter_inhibiters eps g de ?self' w' = (r, self1, w1)"
      by (simp add: cookies_append_def)
    have c': "cookies ?self' = CookieDict (dict_append g (i, ck) d)" by simp
    from Cons.IH[OF c' rec] obtain cs hs d1 where
      ih: "dbus_log w1 = dbus_log w' @ cs" "self1 = ?self'\<lparr>cookies := CookieDict d1\<rparr>"
        "mset (concat (map snd d1)) = mset (concat (map snd (dict_append g (i, ck) d))) + mset hs"
        "acquire_results eps (dbus_log w') cs = map Inr hs \<and> r = None \<or>
          (\<exists>e. acquire_results eps (dbus_log w') cs = map Inr hs @ [Inl e] \<and> r = Some e)"
        "warnings w1 = warnings w'"
      by blast
    from il Inr have ok: "inhibitCall (eps i) (dbus_log w) (appName self) (reason self) = Inr ck"
      by simp
    show ?thesis
      using ih il ok
      by - (rule exI[of _ "InhibitCall i (appName self) (reason self) # cs"],
            rule exI[of _ "(i, ck) # hs"], rule exI[of _ d1], auto simp: mset_dict_append)
  qed
qed


lemma enter_effect_refl:
  "cookies self = CookieDict d \<Longrightarrow> r = None \<or> r = Some TypeError \<Longrightarrow> enter_effect eps self w r self w"
  unfolding enter_effect_def
  by (rule exI[of _ "[]"], rule exI[of _ "[]"], rule exI[of _ d], rule exI[of _ "[]"])
     (auto simp: held_handles_def)

lemma enter_effect_warn:
  "cookies self = CookieDict d \<Longrightarrow>
   enter_effect eps self w None self (w\<lparr>warnings := warnings w @ [x]\<rparr>)"
  unfolding enter_effect_def
  by (rule exI[of _ "[]"], rule exI[of _ "[]"], rule exI[of _ d], rule exI[of _ "[x]"])
     (auto simp: held_handles_def)

lemma enter_effect_trans:
  assumes "enter_effect eps self w None self1 w1" "enter_effect eps self1 w1 r self2 w2"
  shows "enter_effect eps self w r self2 w2"
proof -
  from assms(1) obtain cs hs d1 ws where
    a: "dbus_log w1 = dbus_log w @ cs" "self1 = self\<lparr>cookies := CookieDict d1\<rparr>"
       "mset (concat (map snd d1)) = mset (held_handles (cookies self)) + mset hs"
       "acquire_results eps (dbus_log w) cs = map Inr hs" "warnings w1 = warnings w @ ws"
    unfolding enter_effect_def by auto
  from assms(2) obtain cs' hs' d2 ws' where
    b: "dbus_log w2 = dbus_log w1 @ cs'" "self2 = self1\<lparr>cookies := CookieDict d2\<rparr>"
       "mset (concat (map snd d2)) = mset (held_handles (cookies self1)) + mset hs'"
       "acquire_results eps (dbus_log w1) cs' = map Inr hs' \<and> (r = None \<or> r = Some TypeError) \<or>
         (\<exists>e. acquire_results eps (dbus_log w1) cs' = map Inr hs' @ [Inl e] \<and> r = Some e)"
       "warnings w2 = warnings w1 @ ws'"
    unfolding enter_effect_def by auto
  have h1: "held_handles (cookies self1) = concat (map snd d1)"
    using a(2) by (simp add: held_handles_def)
  show ?thesis
    unfolding enter_effect_def
    apply (rule exI[of _ "cs @ cs'"], rule exI[of _ "hs @ hs'"], rule exI[of _ d2], rule exI[of _ "ws @ ws'"])
    using a b h1 by (auto simp: acquire_results_append)
qed

lemma enter_inhibiters_effect:
  assumes "cookies self = CookieDict d" "enter_inhibiters eps g de self w = (r, self1, w1)"
  shows "enter_effect eps self w r self1 w1"
proof -
  from enter_inhibiters_char[OF assms] obtain cs hs d1 where
    "dbus_log w1 = dbus_log w @ cs" "self1 = self\<lparr>cookies := CookieDict d1\<rparr>"
    "mset (concat (map snd d1)) = mset (concat (map snd d)) + mset hs"
    "acquire_results eps (dbus_log w) cs = map Inr hs \<and> r = None \<or>
      (\<exists>e. acquire_results eps (dbus_log w) cs = map Inr hs @ [Inl e] \<and> r = Some e)"
    "warnings w1 = warnings w" by blast
  then show ?thesis
    unfolding enter_effect_def using assms(1)
    by - (rule exI[of _ cs], rule exI[of _ hs], rule exI[of _ d1], rule exI[of _ "[]"],
          auto simp: held_handles_def)
qed

lemma enter_effect_dict:
  "enter_effect eps self w r self1 w1 \<Longrightarrow> \<exists>d1. cookies self1 = CookieDict d1"
  by (auto simp: enter_effect_def)

lemma enter_des_effect:
  "cookies self = CookieDict d \<Longrightarrow> enter_des eps g des self w = (r, self1, w1) \<Longrightarrow>
   enter_effect eps self w r self1 w1"
proof (induction des arbitrary: self d w)
  case Nil
  then show ?case by (auto intro: enter_effect_refl)
next
  case (Cons p des)
  obtain nm de where p: "p = (nm, de)" by (cases p)
  obtain r' self' w' where e: "enter_inhibiters eps g de self w = (r', self', w')"
    by (cases "enter_inhibiters eps g de self w")
  from enter_inhibiters_effect[OF Cons.prems(1) e] have eff: "enter_effect eps self w r' self' w'" .
  show ?case
  proof (cases r')
    case None
    with Cons.prems p e have rec: "enter_des eps g des self' w' = (r, self1, w1)" by simp
    from enter_effect_dict[OF eff] obtain d' where "cookies self' = CookieDict d'" by blast
    from Cons.IH[OF this rec] eff None show ?thesis by (auto intro: enter_effect_trans)
  next
    case (Some e')
    with Cons.prems p e have "r = r'" "self1 = self'" "w1 = w'" by auto
    with eff show ?thesis by simp
  qed
qed

lemma enter_groups_effect:
  "cookies self = CookieDict d \<Longrightarrow> enter_groups eps ifcs grs self w = (r, self1, w1) \<Longrightarrow>
   enter_effect eps self w r self1 w1"
proof (induction grs arbitrary: self d w)
  case Nil
  then show ?case by (auto intro: enter_effect_refl)
next
  case (Cons gr grs)
  show ?case
  proof (cases gr)
    case None
    with Cons.prems show ?thesis by (auto intro: enter_effect_refl)
  next
    case (Some g)
    show ?thesis
    proof (cases "map_of ifcs g")
      case None
      with Cons.prems Some have rec:
        "enter_groups eps ifcs grs self (w\<lparr>warnings := warnings w @ [group_warning g]\<rparr>) = (r, self1, w1)"
        by simp
      from Cons.IH[OF Cons.prems(1) rec] enter_effect_warn[OF Cons.prems(1)]
      show ?thesis by (blast intro: enter_effect_trans)
    next
      case (Some des)
      note des = this
      obtain r' self' w' where e: "enter_des eps g des self w = (r', self', w')"
        by (cases "enter_des eps g des self w")
      from enter_des_effect[OF Cons.prems(1) e] have eff: "enter_effect eps self w r' self' w'" .
      show ?thesis
      proof (cases r')
        case None
        with Cons.prems \<open>gr = Some g\<close> des e have rec: "enter_groups eps ifcs grs self' w' = (r, self1, w1)"
          by simp
        from enter_effect_dict[OF eff] obtain d' where "cookies self' = CookieDict d'" by blast
        from Cons.IH[OF this rec] eff None show ?thesis by (auto intro: enter_effect_trans)
      next
        case (Some e')
        with Cons.prems \<open>gr = Some g\<close> des e have "r = r'" "self1 = self'" "w1 = w'" by auto
        with eff show ?thesis by simp
      qed
    qed
  qed
qed

lemma exit_effect_nil: "exit_effect eps [] w None w"
  by (simp add: exit_effect_def)

lemma exit_effect_failI:
  "warnings w1 = warnings w \<Longrightarrow> hs = pre @ h # post \<Longrightarrow>
   dbus_log w1 = dbus_log w @ map release_call (pre @ [h]) \<Longrightarrow>
   uninhibitCall (eps (fst h)) (dbus_log w @ map release_call pre) (snd h) = Some e \<or>
   uninhibitCall (eps (fst h)) (dbus_log w @ map release_call pre) (snd h) = None \<and> e = KeyError \<Longrightarrow>
   exit_effect eps hs w (Some e) w1"
  unfolding exit_effect_def by blast

lemma exit_effect_failE:
  assumes "exit_effect eps hs w (Some e) w1"
  obtains pre h post where "warnings w1 = warnings w" "hs = pre @ h # post"
   "dbus_log w1 = dbus_log w @ map release_call (pre @ [h])"
   "uninhibitCall (eps (fst h)) (dbus_log w @ map release_call pre) (snd h) = Some e \<or>
    uninhibitCall (eps (fst h)) (dbus_log w @ map release_call pre) (snd h) = None \<and> e = KeyError"
  using assms unfolding exit_effect_def by blast

lemma exit_effect_single:
  assumes "DBusInhibitor_uninhibit eps i ck w = (r, w1)"
  shows "exit_effect eps [(i, ck)] w r w1"
proof (cases "uninhibitCall (eps i) (dbus_log w) ck")
  case (Some e)
  with assms have "r = Some e" "w1 = w\<lparr>dbus_log := dbus_log w @ [UninhibitCall i ck]\<rparr>"
    by (auto simp: DBusInhibitor_uninhibit_def Let_def)
  moreover from Some this(2) have "exit_effect eps [(i, ck)] w (Some e) w1"
    by (intro exit_effect_failI[where pre="[]" and h="(i, ck)" and post="[]"])
       (simp_all add: release_call_def)
  ultimately show ?thesis by simp
next
  case None
  show ?thesis
  proof (cases "ck \<in> set (ifc_cookies w i)")
    case True
    with None assms have "r = None" "dbus_log w1 = dbus_log w @ [UninhibitCall i ck]"
      "warnings w1 = warnings w"
      by (auto simp: DBusInhibitor_uninhibit_def Let_def)
    then show ?thesis by (simp add: exit_effect_def release_call_def)
  next
    case False
    with None assms have "r = Some KeyError" "w1 = w\<lparr>dbus_log := dbus_log w @ [UninhibitCall i ck]\<rparr>"
      by (auto simp: DBusInhibitor_uninhibit_def Let_def)
    moreover from None this(2) have "exit_effect eps [(i, ck)] w (Some KeyError) w1"
      by (intro exit_effect_failI[where pre="[]" and h="(i, ck)" and post="[]"])
         (simp_all add: release_call_def)
    ultimately show ?thesis by simp
  qed
qed

lemma exit_effect_fail_app:
  assumes "exit_effect eps hs1 w (Some e) w1"
  shows "exit_effect eps (hs1 @ hs2) w (Some e) w1"
proof -
  from assms obtain pre h post where
    a: "warnings w1 = warnings w" "hs1 = pre @ h # post"
       "dbus_log w1 = dbus_log w @ map release_call (pre @ [h])"
       "uninhibitCall (eps (fst h)) (dbus_log w @ map release_call pre) (snd h) = Some e \<or>
        uninhibitCall (eps (fst h)) (dbus_log w @ map release_call pre) (snd h) = None \<and> e = KeyError"
    by (rule exit_effect_failE)
  have "hs1 @ hs2 = pre @ h # (post @ hs2)" using a(2) by simp
  then show ?thesis
    by (rule exit_effect_failI[where pre=pre and h=h and post="post @ hs2" and eps=eps and w=w
          and ?w1.0=w1 and e=e and hs="hs1 @ hs2", OF a(1) _ a(3) a(4)])
qed

lemma exit_effect_app:
  assumes "exit_effect eps hs1 w None w1" "exit_effect eps hs2 w1 r w2"
  shows "exit_effect eps (hs1 @ hs2) w r w2"
proof (cases r)
  case None
  with assms show ?thesis by (simp add: exit_effect_def)
next
  case (Some e)
  from assms(1) have a: "warnings w1 = warnings w" "dbus_log w1 = dbus_log w @ map release_call hs1"
    by (simp_all add: exit_effect_def)
  from assms(2) Some obtain pre h post where
    b: "warnings w2 = warnings w1" "hs2 = pre @ h # post"
       "dbus_log w2 = dbus_log w1 @ map release_call (pre @ [h])"
       "uninhibitCall (eps (fst h)) (dbus_log w1 @ map release_call pre) (snd h) = Some e \<or>
        uninhibitCall (eps (fst h)) (dbus_log w1 @ map release_call pre) (snd h) = None \<and> e = KeyError"
    by (auto elim: exit_effect_failE)
  have 1: "warnings w2 = warnings w" using a b by simp
  have 2: "hs1 @ hs2 = (hs1 @ pre) @ h # post" using b(2) by simp
  have 3: "dbus_log w2 = dbus_log w @ map release_call ((hs1 @ pre) @ [h])"
    using a b by simp
  have 4: "dbus_log w1 @ map release_call pre = dbus_log w @ map release_call (hs1 @ pre)"
    using a by simp
  have "exit_effect eps (hs1 @ hs2) w (Some e) w2"
    by (rule exit_effect_failI[where pre="hs1 @ pre" and h=h and post=post and eps=eps
          and w=w and ?w1.0=w2 and e=e and hs="hs1 @ hs2", OF 1 2 3 b(4)[unfolded 4]])
  with Some show ?thesis by simp
qed

lemma exit_group_effect:
  "exit_group eps hs w = (r, w1) \<Longrightarrow> exit_effect eps hs w r w1"
proof (induction hs arbitrary: w)
  case Nil
  then show ?case by (simp add: exit_effect_nil)
next
  case (Cons h hs)
  obtain i ck where h: "h = (i, ck)" by (cases h)
  obtain r' w' where u: "DBusInhibitor_uninhibit eps i ck w = (r', w')"
    by (cases "DBusInhibitor_uninhibit eps i ck w")
  note s = exit_effect_single[OF u]
  show ?case
  proof (cases r')
    case None
    with Cons.prems h u have "exit_group eps hs w' = (r, w1)" by simp
    from Cons.IH[OF this] s None have "exit_effect eps ([(i, ck)] @ hs) w r w1"
      by (intro exit_effect_app[where ?w1.0=w']) simp_all
    with h show ?thesis by simp
  next
    case (Some e)
    with Cons.prems h u have "r = Some e" "w1 = w'" by simp_all
    from s Some have "exit_effect eps [(i, ck)] w (Some e) w'" by simp
    from exit_effect_fail_app[OF this, of hs] \<open>r = Some e\<close> \<open>w1 = w'\<close>
    have "exit_effect eps ([(i, ck)] @ hs) w r w1" by simp
    with h show ?thesis by simp
  qed
qed

lemma exit_groups_effect:
  "exit_groups eps gs w = (r, w1) \<Longrightarrow> exit_effect eps (concat gs) w r w1"
proof (induction gs arbitrary: w)
  case Nil
  then show ?case by (simp add: exit_effect_nil)
next
  case (Cons g gs)
  obtain r' w' where u: "exit_group eps g w = (r', w')" by (cases "exit_group eps g w")
  note s = exit_group_effect[OF u]
  show ?case
  proof (cases r')
    case None
    with Cons.prems u have "exit_groups eps gs w' = (r, w1)" by simp
    from Cons.IH[OF this] s None show ?thesis
      by (simp del: concat.simps add: concat.simps(2)[of g gs] exit_effect_app[where ?w1.0=w'])
  next
    case (Some e)
    with Cons.prems u have "r = Some e" "w1 = w'" by simp_all
    with s Some show ?thesis by (simp add: exit_effect_fail_app)
  qed
qed







subsection \<open>Entering a scope of the multi-endpoint backend\<close>




subsection \<open>Leaving a scope of the multi-endpoint backend\<close>

lemma NoSuspendLinux_exit_effect:
  assumes "cookies self = CookieDict d" "NoSuspendLinux_exit eps self w = (r, self1, w1)"
  shows "exit_effect eps (held_handles (cookies self)) w r w1 \<and>
         (r = None \<longrightarrow> self1 = self\<lparr>cookies := EmptyList\<rparr>) \<and> (r \<noteq> None \<longrightarrow> self1 = self)"
proof -
  obtain r' w' where g: "exit_groups eps (map snd d) w = (r', w')"
    by (cases "exit_groups eps (map snd d) w")
  from exit_groups_effect[OF g] assms(1)
  have eff: "exit_effect eps (held_handles (cookies self)) w r' w'"
    by (simp add: held_handles_def)
  from assms g have e:
    "(case r' of None \<Rightarrow> (None, self\<lparr>cookies := EmptyList\<rparr>, w') | Some e \<Rightarrow> (Some e, self, w'))
       = (r, self1, w1)"
    by (simp add: NoSuspendLinux_exit_def)
  show ?thesis
  proof (cases r')
    case None
    with e have "r = None" "self1 = self\<lparr>cookies := EmptyList\<rparr>" "w1 = w'" by simp_all
    with eff None show ?thesis by simp
  next
    case (Some x)
    with e have "r = Some x" "self1 = self" "w1 = w'" by simp_all
    with eff Some show ?thesis by simp
  qed
qed

lemma exit_effect_take:
  assumes "exit_effect eps hs w r w1"
  shows "\<exists>n. dbus_log w1 = dbus_log w @ map release_call (take n hs) \<and> (r = None \<longrightarrow> n = length hs)"
proof (cases r)
  case None
  with assms have "dbus_log w1 = dbus_log w @ map release_call (take (length hs) hs)"
    by (simp add: exit_effect_def)
  with None show ?thesis by blast
next
  case (Some e)
  with assms obtain pre h post where
    "hs = pre @ h # post" "dbus_log w1 = dbus_log w @ map release_call (pre @ [h])"
    by (auto elim: exit_effect_failE)
  then have "dbus_log w1 = dbus_log w @ map release_call (take (Suc (length pre)) hs)"
    by simp
  with Some show ?thesis by blast
qed

lemma released_refl: "released w [] w"
  by (simp add: released_def)

lemma uninhibit_step:
  assumes "released w dn w0"
    and "DBusInhibitor_uninhibit eps (fst h) (snd h) w0 = (r, w0')"
  shows "r = release_outcome eps w dn h"
    and "dbus_log w0' = dbus_log w @ map release_call (dn @ [h])"
    and "r = None \<Longrightarrow> released w (dn @ [h]) w0'"
proof -
  from assms(1) have
    l: "dbus_log w0 = dbus_log w @ map release_call dn" and
    ws: "warnings w0 = warnings w" and
    c: "\<And>i. set (ifc_cookies w0 i) = set (ifc_cookies w i) - {ck. (i, ck) \<in> set dn}"
    by (simp_all add: released_def)
  have m: "snd h \<in> set (ifc_cookies w0 (fst h)) \<longleftrightarrow>
      snd h \<in> set (ifc_cookies w (fst h)) \<and> h \<notin> set dn"
    using c[of "fst h"] by simp
  show r: "r = release_outcome eps w dn h"
  proof (cases "uninhibitCall (eps (fst h)) (dbus_log w0) (snd h)")
    case (Some e)
    with assms(2) have "r = Some e" by (auto simp: DBusInhibitor_uninhibit_def Let_def)
    moreover from Some l have "release_outcome eps w dn h = Some e"
      by (simp add: release_outcome_def)
    ultimately show ?thesis by simp
  next
    case None
    with assms(2) have
      "r = (if snd h \<in> set (ifc_cookies w0 (fst h)) then None else Some KeyError)"
      by (auto simp: DBusInhibitor_uninhibit_def Let_def split: if_splits)
    moreover from None l have "release_outcome eps w dn h =
        (if snd h \<in> set (ifc_cookies w (fst h)) \<and> h \<notin> set dn then None else Some KeyError)"
      by (simp add: release_outcome_def)
    ultimately show ?thesis using m by simp
  qed
  show "dbus_log w0' = dbus_log w @ map release_call (dn @ [h])"
    using assms(2) l
    by (auto simp: DBusInhibitor_uninhibit_def Let_def release_call_def
        split: option.splits if_splits)
  show "released w (dn @ [h]) w0'" if "r = None"
  proof -
    from that assms(2) have
      w0': "w0' = w0\<lparr>dbus_log := dbus_log w0 @ [UninhibitCall (fst h) (snd h)],
                ifc_cookies := (ifc_cookies w0)(fst h := removeAll (snd h) (ifc_cookies w0 (fst h)))\<rparr>"
      by (auto simp: DBusInhibitor_uninhibit_def Let_def split: option.splits if_splits)
    have "set (ifc_cookies w0' i) = set (ifc_cookies w i) - {ck. (i, ck) \<in> set (dn @ [h])}" for i
    proof (cases "i = fst h")
      case True
      have "{ck. (fst h, ck) \<in> set (dn @ [h])} = {ck. (fst h, ck) \<in> set dn} \<union> {snd h}"
        by (auto simp: prod_eq_iff)
      with True w0' c[of "fst h"] show ?thesis by auto
    next
      case False
      then have "{ck. (i, ck) \<in> set (dn @ [h])} = {ck. (i, ck) \<in> set dn}"
        by (auto simp: prod_eq_iff)
      with False w0' c[of i] show ?thesis by simp
    qed
    with w0' l ws show ?thesis
      by (simp add: released_def release_call_def)
  qed
qed

lemma exit_group_all_ok:
  "released w dn w0 \<Longrightarrow>
   (\<forall>pre h post. hs = pre @ h # post \<longrightarrow> release_outcome eps w (dn @ pre) h = None) \<Longrightarrow>
   \<exists>w1. exit_group eps hs w0 = (None, w1) \<and> released w (dn @ hs) w1"
proof (induction hs arbitrary: dn w0)
  case Nil
  then show ?case by simp
next
  case (Cons h hs)
  obtain r w0' where u: "DBusInhibitor_uninhibit eps (fst h) (snd h) w0 = (r, w0')"
    by (cases "DBusInhibitor_uninhibit eps (fst h) (snd h) w0")
  from Cons.prems(2) have "release_outcome eps w (dn @ []) h = None" by blast
  with uninhibit_step(1)[OF Cons.prems(1) u] have r: "r = None" by simp
  from uninhibit_step(3)[OF Cons.prems(1) u r] have rel: "released w (dn @ [h]) w0'" .
  have rest: "\<forall>pre h' post. hs = pre @ h' # post \<longrightarrow>
      release_outcome eps w ((dn @ [h]) @ pre) h' = None"
  proof (intro allI impI)
    fix pre h' post
    assume "hs = pre @ h' # post"
    then have "h # hs = (h # pre) @ h' # post" by simp
    with Cons.prems(2) have "release_outcome eps w (dn @ (h # pre)) h' = None" by blast
    then show "release_outcome eps w ((dn @ [h]) @ pre) h' = None" by simp
  qed
  from Cons.IH[OF rel rest] obtain w1 where
    "exit_group eps hs w0' = (None, w1)" "released w ((dn @ [h]) @ hs) w1" by blast
  with u r show ?case by (cases h) simp
qed

lemma exit_group_append:
  "exit_group eps (hs1 @ hs2) w =
     (case exit_group eps hs1 w of
        (Some e, w1) \<Rightarrow> (Some e, w1)
      | (None, w1) \<Rightarrow> exit_group eps hs2 w1)"
  by (induction hs1 arbitrary: w) (auto split: prod.splits option.splits)

lemma exit_groups_concat: "exit_groups eps gs w = exit_group eps (concat gs) w"
  by (induction gs arbitrary: w) (auto simp: exit_group_append split: prod.splits option.splits)

lemma exit_group_first_failure:
  assumes "released w dn w0"
    and "\<forall>pre' h' post'. pre = pre' @ h' # post' \<longrightarrow> release_outcome eps w (dn @ pre') h' = None"
    and "release_outcome eps w (dn @ pre) h = Some e"
  shows "\<exists>w1. exit_group eps (pre @ h # post) w0 = (Some e, w1) \<and>
           dbus_log w1 = dbus_log w @ map release_call (dn @ pre @ [h])"
proof -
  from exit_group_all_ok[OF assms(1,2)] obtain wp where
    p: "exit_group eps pre w0 = (None, wp)" "released w (dn @ pre) wp" by blast
  obtain r w' where u: "DBusInhibitor_uninhibit eps (fst h) (snd h) wp = (r, w')"
    by (cases "DBusInhibitor_uninhibit eps (fst h) (snd h) wp")
  from uninhibit_step(1,2)[OF p(2) u] assms(3) have
    "r = Some e" "dbus_log w' = dbus_log w @ map release_call (dn @ pre @ [h])" by simp_all
  with u have "exit_group eps (h # post) wp = (Some e, w')" by (cases h) simp
  with p(1) \<open>dbus_log w' = dbus_log w @ map release_call (dn @ pre @ [h])\<close>
  show ?thesis by (simp add: exit_group_append)
qed

text \<open>
  C6, as the code has it: \<open>__exit__\<close> of a scope that holds the dictionary makes the release
  calls of the held pairs in order, one call for a pair, and nothing catches an error.
  When every release call returns (the endpoint raises nothing and the cookie is in its
  inhibitor's set), \<open>__exit__\<close> returns, every held pair has had its one call, the cookies
  are out of the inhibitors' sets and the scope's \<open>cookies\<close> is the empty list. When the
  release call for a held pair \<open>h\<close> is the first that fails, with the error \<open>e\<close> (the
  endpoint's, or the KeyError of \<open>set.remove\<close>), \<open>__exit__\<close> raises \<open>e\<close>: the calls made are
  those for the pairs before \<open>h\<close> and for \<open>h\<close>, the pairs after \<open>h\<close> get no release call,
  and the scope is left as it was.
\<close>

theorem exit_stops_at_failed_release:
  assumes "cookies self = CookieDict d" and "NoSuspendLinux_exit eps self w = (r, self1, w1)"
  shows "((\<forall>pre h post. held_handles (cookies self) = pre @ h # post \<longrightarrow>
             release_outcome eps w pre h = None) \<longrightarrow>
          r = None \<and> cookies self1 = EmptyList \<and> released w (held_handles (cookies self)) w1) \<and>
         (\<forall>pre h post e.
            held_handles (cookies self) = pre @ h # post \<and>
            (\<forall>pre' h' post'. pre = pre' @ h' # post' \<longrightarrow> release_outcome eps w pre' h' = None) \<and>
            release_outcome eps w pre h = Some e \<longrightarrow>
            r = Some e \<and> self1 = self \<and>
            dbus_log w1 = dbus_log w @ map release_call (pre @ [h]))"
proof -
  let ?hs = "held_handles (cookies self)"
  have hs: "?hs = concat (map snd d)" using assms(1) by (simp add: held_handles_def)
  obtain r' w' where g: "exit_group eps ?hs w = (r', w')" by (cases "exit_group eps ?hs w")
  with hs have gs: "exit_groups eps (map snd d) w = (r', w')" by (simp add: exit_groups_concat)
  have res: "r = r'" "w1 = w'" "r' = None \<Longrightarrow> cookies self1 = EmptyList" "r' \<noteq> None \<Longrightarrow> self1 = self"
    using assms gs by (auto simp: NoSuspendLinux_exit_def split: option.splits)
  show ?thesis
  proof (intro conjI allI impI)
    assume a: "\<forall>pre h post. ?hs = pre @ h # post \<longrightarrow> release_outcome eps w pre h = None"
    then have "\<forall>pre h post. ?hs = pre @ h # post \<longrightarrow> release_outcome eps w ([] @ pre) h = None"
      by simp
    from exit_group_all_ok[OF released_refl this] g
    have "r' = None" "released w ?hs w'" by simp_all
    with res show "r = None" "cookies self1 = EmptyList" "released w ?hs w1" by simp_all
  next
    fix pre h post e
    assume b: "?hs = pre @ h # post \<and>
        (\<forall>pre' h' post'. pre = pre' @ h' # post' \<longrightarrow> release_outcome eps w pre' h' = None) \<and>
        release_outcome eps w pre h = Some e"
    then have b2: "\<forall>pre' h' post'. pre = pre' @ h' # post' \<longrightarrow>
        release_outcome eps w ([] @ pre') h' = None"
      and b3: "release_outcome eps w ([] @ pre) h = Some e" by simp_all
    from exit_group_first_failure[OF released_refl b2 b3, of post] b g
    have "r' = Some e" "dbus_log w' = dbus_log w @ map release_call (pre @ [h])" by auto
    with res show "r = Some e" "self1 = self"
      "dbus_log w1 = dbus_log w @ map release_call (pre @ [h])" by simp_all
  qed
qed


text \<open>
  The scope holding the handles of inhibitors 0, 1 and 2: where the release call of
  inhibitor 0 raises, \<open>__exit__\<close> raises after that one call; where every call returns,
  \<open>__exit__\<close> returns and all three are released.
\<close>

theorem exit_stops_at_failed_release_witness:
  "fst ex_exited_rf = Some DBusException \<and>
   fst (snd ex_exited_rf) = fst (snd ex_entered_rf) \<and>
   dbus_log (snd (snd ex_exited_rf)) =
     dbus_log (snd (snd ex_entered_rf)) @ map release_call ([] @ [(0, 7)]) \<and>
   fst ex_exited = None \<and> cookies (fst (snd ex_exited)) = EmptyList \<and>
   released (snd (snd ex_entered)) [(0, 7), (1, 8), (2, 9)] (snd (snd ex_exited))"
proof -
  have c1: "cookies (fst (snd ex_entered_rf)) = CookieDict [(''suspend'', [(0, 7), (1, 8), (2, 9)])]"
    by code_simp
  have e1: "NoSuspendLinux_exit ex_eps_release_fails (fst (snd ex_entered_rf)) (snd (snd ex_entered_rf))
      = (fst ex_exited_rf, fst (snd ex_exited_rf), snd (snd ex_exited_rf))"
    by (simp add: ex_exited_rf_def)
  have hs1: "held_handles (cookies (fst (snd ex_entered_rf))) = [] @ (0, 7) # [(1, 8), (2, 9)]"
    by (simp add: c1 held_handles_def)
  have first: "\<forall>pre' h' post'. ([] :: held list) = pre' @ h' # post' \<longrightarrow>
      release_outcome ex_eps_release_fails (snd (snd ex_entered_rf)) pre' h' = None"
    by simp
  have fails: "release_outcome ex_eps_release_fails (snd (snd ex_entered_rf)) [] (0, 7) =
      Some DBusException"
    by (simp add: release_outcome_def ex_eps_release_fails_def)
  from exit_stops_at_failed_release[OF c1 e1] hs1 first fails
  have b: "fst ex_exited_rf = Some DBusException \<and>
      fst (snd ex_exited_rf) = fst (snd ex_entered_rf) \<and>
      dbus_log (snd (snd ex_exited_rf)) =
        dbus_log (snd (snd ex_entered_rf)) @ map release_call ([] @ [(0, 7)])"
    by blast
  have c2: "cookies (fst (snd ex_entered)) = CookieDict [(''suspend'', [(0, 7), (1, 8), (2, 9)])]"
    by code_simp
  have e2: "NoSuspendLinux_exit ex_eps (fst (snd ex_entered)) (snd (snd ex_entered))
      = (fst ex_exited, fst (snd ex_exited), snd (snd ex_exited))"
    by (simp add: ex_exited_def)
  have hs2: "held_handles (cookies (fst (snd ex_entered))) = [(0, 7), (1, 8), (2, 9)]"
    by (simp add: c2 held_handles_def)
  have k0: "ifc_cookies (snd (snd ex_entered)) 0 = [7]" by code_simp
  have k1: "ifc_cookies (snd (snd ex_entered)) (Suc 0) = [8]" by code_simp
  have k2: "ifc_cookies (snd (snd ex_entered)) 2 = [9]" by code_simp
  have ok: "\<forall>pre h post. held_handles (cookies (fst (snd ex_entered))) = pre @ h # post \<longrightarrow>
      release_outcome ex_eps (snd (snd ex_entered)) pre h = None"
    unfolding hs2
    by (auto simp: Cons_eq_append_conv release_outcome_def ex_eps_def k0 k1 k2)
  from exit_stops_at_failed_release[OF c2 e2] ok hs2
  have a: "fst ex_exited = None \<and> cookies (fst (snd ex_exited)) = EmptyList \<and>
      released (snd (snd ex_entered)) [(0, 7), (1, 8), (2, 9)] (snd (snd ex_exited))"
    by simp
  from a b show ?thesis by simp
qed

text \<open>
  C6 as stated fails there: \<open>__exit__\<close> raises the endpoint's error after its first release
  call, and the handle of inhibitor 1 (and of inhibitor 2) gets no release call.
\<close>

theorem exit_propagates_release_failure:
  "fst ex_entered_rf = Inr 1 \<and>
   held_handles (cookies (fst (snd ex_entered_rf))) = [(0, 7), (1, 8), (2, 9)] \<and>
   fst ex_exited_rf = Some DBusException \<and>
   dbus_log (snd (snd ex_exited_rf)) = dbus_log (snd (snd ex_entered_rf)) @ [UninhibitCall 0 7] \<and>
   UninhibitCall 1 8 \<notin> set (dbus_log (snd (snd ex_exited_rf)))"
  by code_simp


subsection \<open>An acquire call that raises\<close>

text \<open>
  C2, as the code has it: \<open>__enter__\<close> of a scope that holds the dictionary makes acquire calls
  \<open>cs\<close>, of which all but possibly the last return a handle. The handles \<open>hs\<close> obtained are
  exactly what is added to the held pairs. When an acquire call raises, it is the last call
  made and \<open>__enter__\<close> raises its error: the remaining inhibitors and groups are not tried.
  An \<open>__exit__\<close> after it makes release calls for held pairs only, in order and one for a
  pair, for all of them when it returns.
\<close>

theorem enter_failure_keeps_acquired_handles:
  assumes "cookies self = CookieDict d"
    and "NoSuspendLinux_enter eps ifcs self w = (r, self1, w1)"
    and "NoSuspendLinux_exit eps self1 w1 = (r2, self2, w2)"
  shows "\<exists>cs hs. dbus_log w1 = dbus_log w @ cs \<and>
           mset (held_handles (cookies self1)) = mset (held_handles (cookies self)) + mset hs \<and>
           (acquire_results eps (dbus_log w) cs = map Inr hs \<or>
            (\<exists>e. acquire_results eps (dbus_log w) cs = map Inr hs @ [Inl e] \<and> r = Inl e)) \<and>
           (\<exists>n. dbus_log w2 = dbus_log w1 @ map release_call (take n (held_handles (cookies self1))) \<and>
                (r2 = None \<longrightarrow> n = length (held_handles (cookies self1))))"
proof -
  obtain r' self' w' where
    g: "enter_groups eps ifcs (enumDecompose_names (flag self)) self w = (r', self', w')"
    by (cases "enter_groups eps ifcs (enumDecompose_names (flag self)) self w")
  have eq: "self1 = self'" "w1 = w'" "\<And>x. r' = Some x \<Longrightarrow> r = Inl x"
    using assms(2) g by (auto simp: NoSuspendLinux_enter_def split: option.splits)
  from enter_groups_effect[OF assms(1) g] obtain cs hs d1 ws where
    eff: "dbus_log w' = dbus_log w @ cs" "self' = self\<lparr>cookies := CookieDict d1\<rparr>"
      "mset (concat (map snd d1)) = mset (held_handles (cookies self)) + mset hs"
      "acquire_results eps (dbus_log w) cs = map Inr hs \<and> (r' = None \<or> r' = Some TypeError) \<or>
         (\<exists>e. acquire_results eps (dbus_log w) cs = map Inr hs @ [Inl e] \<and> r' = Some e)"
    unfolding enter_effect_def by blast
  from eff(2) eq have c1: "cookies self1 = CookieDict d1" by simp
  then have hh: "held_handles (cookies self1) = concat (map snd d1)"
    by (simp add: held_handles_def)
  from NoSuspendLinux_exit_effect[OF c1 assms(3)]
  have "exit_effect eps (held_handles (cookies self1)) w1 r2 w2" by simp
  from exit_effect_take[OF this] obtain n where
    n: "dbus_log w2 = dbus_log w1 @ map release_call (take n (held_handles (cookies self1)))"
       "r2 = None \<longrightarrow> n = length (held_handles (cookies self1))"
    by blast
  have res: "acquire_results eps (dbus_log w) cs = map Inr hs \<or>
            (\<exists>e. acquire_results eps (dbus_log w) cs = map Inr hs @ [Inl e] \<and> r = Inl e)"
    using eff(4) eq(3) by blast
  have 1: "dbus_log w1 = dbus_log w @ cs" using eff(1) eq(2) by simp
  have 2: "mset (held_handles (cookies self1)) = mset (held_handles (cookies self)) + mset hs"
    using eff(3) hh by simp
  have 3: "\<exists>n. dbus_log w2 = dbus_log w1 @ map release_call (take n (held_handles (cookies self1))) \<and>
                (r2 = None \<longrightarrow> n = length (held_handles (cookies self1)))"
    using n by blast
  show ?thesis
    by (rule exI[of _ cs], rule exI[of _ hs]) (rule conjI[OF 1 conjI[OF 2 conjI[OF res 3]]])
qed

text \<open>
  The default scope where the acquire call of inhibitor 1 raises: the handle of inhibitor 0 is
  held, \<open>__enter__\<close> raises.
\<close>

theorem enter_failure_keeps_acquired_handles_witness:
  "fst ex_entered_af = Inl DBusException \<and>
   held_handles (cookies (fst (snd ex_entered_af))) = [(0, 7)] \<and>
   (\<exists>cs hs. dbus_log (snd (snd ex_entered_af)) = dbus_log ex_world @ cs \<and>
      mset (held_handles (cookies (fst (snd ex_entered_af)))) =
        mset (held_handles (cookies (ex_scope 1))) + mset hs \<and>
      (acquire_results ex_eps_acquire_fails (dbus_log ex_world) cs = map Inr hs \<or>
       (\<exists>e. acquire_results ex_eps_acquire_fails (dbus_log ex_world) cs = map Inr hs @ [Inl e] \<and>
            fst ex_entered_af = Inl e)) \<and>
      (\<exists>n. dbus_log (snd (snd ex_exited_af)) =
             dbus_log (snd (snd ex_entered_af)) @
               map release_call (take n (held_handles (cookies (fst (snd ex_entered_af))))) \<and>
           (fst ex_exited_af = None \<longrightarrow>
              n = length (held_handles (cookies (fst (snd ex_entered_af)))))))"
proof -
  have h1: "cookies (ex_scope 1) = CookieDict []" by (simp add: ex_scope_def)
  have h2: "NoSuspendLinux_enter ex_eps_acquire_fails ex_ifcs (ex_scope 1) ex_world =
      (fst ex_entered_af, fst (snd ex_entered_af), snd (snd ex_entered_af))"
    by (simp add: ex_entered_af_def)
  have h3: "NoSuspendLinux_exit ex_eps_acquire_fails (fst (snd ex_entered_af)) (snd (snd ex_entered_af))
      = (fst ex_exited_af, fst (snd ex_exited_af), snd (snd ex_exited_af))"
    by (simp add: ex_exited_af_def)
  have r: "fst ex_entered_af = Inl DBusException" by code_simp
  have hh: "held_handles (cookies (fst (snd ex_entered_af))) = [(0, 7)]" by code_simp
  show ?thesis
    by (rule conjI[OF r conjI[OF hh enter_failure_keeps_acquired_handles[OF h1 h2 h3]]])
qed

text \<open>
  C2 as stated fails there: \<open>__enter__\<close> does not complete, and inhibitor 2, whose acquire call
  would have returned cookie 9, is never called.
\<close>

theorem enter_aborts_on_acquire_failure:
  "fst ex_entered_af = Inl DBusException \<and>
   cookies (fst (snd ex_entered_af)) = CookieDict [(''suspend'', [(0, 7)])] \<and>
   dbus_log (snd (snd ex_entered_af)) =
     [InhibitCall 0 ''Python NoSuspend'' ''NoSuspend was called'',
      InhibitCall 1 ''Python NoSuspend'' ''NoSuspend was called''] \<and>
   InhibitCall 2 ''Python NoSuspend'' ''NoSuspend was called'' \<notin> set (dbus_log (snd (snd ex_entered_af))) \<and>
   inhibitCall (ex_eps_acquire_fails 2) (dbus_log (snd (snd ex_entered_af)))
     ''Python NoSuspend'' ''NoSuspend was called'' = Inr 9"
  by code_simp

subsection \<open>Destroying a scope that was entered\<close>

text \<open>
  \<open>NoSuspendLinux.__del__\<close> changes nothing and calls nothing, whatever the scope holds;
  \<open>DBusInhibitor.__del__\<close>, which runs when an inhibitor object itself is destroyed, makes one
  release call for every cookie of its set.
\<close>

lemma DBusInhibitor_del_loop_log:
  "dbus_log (DBusInhibitor_del_loop i cks w) = dbus_log w @ map (UninhibitCall i) cks"
  by (induction cks arbitrary: w) simp_all

lemma DBusInhibitor_del_log:
  "dbus_log (DBusInhibitor_del set_iter i w) =
     dbus_log w @ map (UninhibitCall i) (set_iter (ifc_cookies w i))"
  by (simp add: DBusInhibitor_del_def DBusInhibitor_del_loop_log)

lemma del_loop_noop: "del_loop cks w = w"
  by (induction cks arbitrary: w) (simp_all add: NoSuspendLinux_uninhibit_def)

lemma NoSuspendLinux_del_noop: "NoSuspendLinux_del self w = w"
  by (cases "cookies self") (simp_all add: NoSuspendLinux_del_def del_loop_noop)

lemma ex_scope_is_constructed:
  "NoSuspendLinux_init inherited True False True ''Python NoSuspend'' ''NoSuspend was called'' []
     ex_world = (Inr (ex_scope 1), ex_world)"
  by (simp add: NoSuspendLinux_init_def NoSuspend_init_def getattr_int_def class_attrs_def
      SuspendInhibitionState_def hasattr_def IntFlag_or_def bool_times_def ex_scope_def)

text \<open>
  C5 fails on the code: the default scope, constructed and entered where every call
  succeeds, holds the handles of inhibitors 0, 1 and 2. Destroying it without \<open>__exit__\<close>
  makes no release call: the log still holds the three acquire calls only, and cookie 7 is
  still in the set of inhibitor 0.
\<close>

theorem del_releases_nothing:
  "fst ex_entered = Inr 1 \<and>
   held_handles (cookies (fst (snd ex_entered))) = [(0, 7), (1, 8), (2, 9)] \<and>
   dbus_log (NoSuspendLinux_del (fst (snd ex_entered)) (snd (snd ex_entered))) =
     [InhibitCall 0 ''Python NoSuspend'' ''NoSuspend was called'',
      InhibitCall 1 ''Python NoSuspend'' ''NoSuspend was called'',
      InhibitCall 2 ''Python NoSuspend'' ''NoSuspend was called''] \<and>
   UninhibitCall 0 7 \<notin> set (dbus_log (NoSuspendLinux_del (fst (snd ex_entered)) (snd (snd ex_entered)))) \<and>
   ifc_cookies (NoSuspendLinux_del (fst (snd ex_entered)) (snd (snd ex_entered))) 0 = [7]"
  by code_simp

subsection \<open>Leaving a scope twice\<close>

text \<open>
  C4, as the code has it. On the single-call backend, the second \<open>__exit__\<close> after an
  \<open>__enter__\<close> and an \<open>__exit__\<close> does not reach the platform: \<open>prev\<close> is \<open>None\<close> by then,
  \<open>int(None)\<close> raises TypeError, the backend is left as it was, and the scope's \<open>current\<close>
  has become \<open>None\<close>. On the multi-endpoint backend, after an \<open>__exit__\<close> that returned, a
  second \<open>__exit__\<close> makes no call and leaves the scope and the world as they were.
\<close>

theorem second_exit_no_release:
  "(case NoSuspendWinVistaPlus_enter self b of (r, s1, b1) \<Rightarrow>
      case NoSuspendWinVistaPlus_exit s1 b1 of (r1, s2, b2) \<Rightarrow>
      case NoSuspendWinVistaPlus_exit s2 b2 of (r2, s3, b3) \<Rightarrow>
        r1 = None \<and> r2 = Some TypeError \<and> b3 = b2 \<and> s3 = s2\<lparr>current := None\<rparr>) \<and>
   (NoSuspendLinux_exit eps lself w = (None, lself1, w1) \<longrightarrow>
      snd (NoSuspendLinux_exit eps lself1 w1) = (lself1, w1))"
proof (rule conjI)
  show "case NoSuspendWinVistaPlus_enter self b of (r, s1, b1) \<Rightarrow>
      case NoSuspendWinVistaPlus_exit s1 b1 of (r1, s2, b2) \<Rightarrow>
      case NoSuspendWinVistaPlus_exit s2 b2 of (r2, s3, b3) \<Rightarrow>
        r1 = None \<and> r2 = Some TypeError \<and> b3 = b2 \<and> s3 = s2\<lparr>current := None\<rparr>"
    by (simp add: NoSuspendWinVistaPlus_enter_def NoSuspendWinVistaPlus_exit_def getCurrentState_def
        setThreadExecutionState_def kernel32_SetThreadExecutionState_def Let_def)
next
  show "NoSuspendLinux_exit eps lself w = (None, lself1, w1) \<longrightarrow>
      snd (NoSuspendLinux_exit eps lself1 w1) = (lself1, w1)"
  proof
    assume e: "NoSuspendLinux_exit eps lself w = (None, lself1, w1)"
    have "cookies lself1 = EmptyList"
    proof (cases "cookies lself")
      case EmptyList
      with e show ?thesis by (simp add: NoSuspendLinux_exit_def)
    next
      case (CookieDict d)
      from NoSuspendLinux_exit_effect[OF this e] show ?thesis by simp
    qed
    then show "snd (NoSuspendLinux_exit eps lself1 w1) = (lself1, w1)"
      by (simp add: NoSuspendLinux_exit_def)
  qed
qed

text \<open>The default scope of the multi-endpoint backend, entered and left twice.\<close>

theorem second_exit_no_release_witness:
  "fst ex_exited = None \<and> held_handles (cookies (fst (snd ex_entered))) = [(0, 7), (1, 8), (2, 9)] \<and>
   snd (NoSuspendLinux_exit ex_eps (fst (snd ex_exited)) (snd (snd ex_exited))) = snd ex_exited"
proof -
  have r: "fst ex_exited = None" by code_simp
  have hh: "held_handles (cookies (fst (snd ex_entered))) = [(0, 7), (1, 8), (2, 9)]" by code_simp
  have h: "NoSuspendLinux_exit ex_eps (fst (snd ex_entered)) (snd (snd ex_entered)) =
      (None, fst (snd ex_exited), snd (snd ex_exited))"
    using r by (simp add: ex_exited_def prod_eq_iff)
  from second_exit_no_release[of _ _ ex_eps "fst (snd ex_entered)" "snd (snd ex_entered)"
      "fst (snd ex_exited)" "snd (snd ex_exited)"] h
  have "snd (NoSuspendLinux_exit ex_eps (fst (snd ex_exited)) (snd (snd ex_exited))) =
      (fst (snd ex_exited), snd (snd ex_exited))" by blast
  with r hh show ?thesis by simp
qed

lemma win_scope_is_constructed:
  "NoSuspendWinVistaPlus_init inherited True False False True [] =
     Inr \<lparr>flag = 0x80000001, inherit = True, prev = None, current = None\<rparr>"
  by (simp add: NoSuspendWinVistaPlus_init_def NoSuspend_init_def getattr_int_def class_attrs_def
      EXECUTION_STATE_def hasattr_def IntFlag_or_def bool_times_def)

text \<open>
  C4 as stated fails there: the scope \<open>NoSuspendWinVistaPlus()\<close> entered on a bitmask of 0 and
  left; the second \<open>__exit__\<close> raises TypeError and changes the scope's \<open>current\<close>.
\<close>

theorem second_exit_raises:
  "(case NoSuspendWinVistaPlus_enter
           \<lparr>flag = 0x80000001, inherit = True, prev = None, current = None\<rparr>
           \<lparr>bitmask = 0, calls = []\<rparr> of (r, s1, b1) \<Rightarrow>
      case NoSuspendWinVistaPlus_exit s1 b1 of (r1, s2, b2) \<Rightarrow>
      case NoSuspendWinVistaPlus_exit s2 b2 of (r2, s3, b3) \<Rightarrow>
        r = Inr 0x80000001 \<and> r1 = None \<and> r2 = Some TypeError \<and>
        current s2 = Some 0 \<and> current s3 = None)"
  by code_simp

end
